theory Spec2Isabelle
  imports Main
begin

section \<open>Errors and results\<close>

text \<open>
  The values of Go's \<open>error\<close> type that the store handles: the two sentinels it compares
  against or returns (\<open>sql.ErrNoRows\<close>, \<open>pkg.ErrNotFound\<close>), the errors of its collaborators
  (the database, \<open>encoding/json\<close>, the template compiler), and \<open>errors.New(err)\<close> of
  go-errors, which wraps an error with a stack trace.
\<close>

datatype error =
    ErrNoRows
  | ErrNotFound
  | BackendError string
  | JsonError string
  | CompileError string
  | Traced error

text \<open>
  A Go function that returns \<open>(v, err)\<close> is a value of \<open>error + 'a\<close>; a function that returns
  only \<open>error\<close> returns \<open>error option\<close> (\<open>None\<close> is \<open>nil\<close>). A call can also panic.
\<close>

datatype 'a go = Return 'a | Panic

section \<open>Policies\<close>

text \<open>
  The \<open>Policy\<close> interface, as \<open>Create\<close> reads it through its getters, and the
  \<open>DefaultPolicy\<close> struct that \<open>Get\<close> fills in. A Go slice that the code tests against
  \<open>nil\<close> is an \<open>option\<close>: \<open>None\<close> is the nil slice.
\<close>

record 'c Policy =
  GetID :: string
  GetDescription :: string
  GetEffect :: string
  GetConditions :: "'c list option"
  GetSubjects :: "string list"
  GetPermissions :: "string list"
  GetResources :: "string list"
  GetStartDelimiter :: char
  GetEndDelimiter :: char

record 'c DefaultPolicy =
  ID :: string
  Description :: string
  Effect :: string
  Conditions :: "'c list option"
  Subjects :: "string list"
  Permissions :: "string list"
  Resources :: "string list"

section \<open>The database\<close>

text \<open>
  The four tables of \<open>schemas\<close>. The columns \<open>created_at\<close> and \<open>previous\<close> are never written
  or read by the store and are left out. Rows are kept in insertion order.
\<close>

record policy_row =
  id_col :: string
  description_col :: string
  effect_col :: string
  conditions_col :: string

record link_row =
  compiled :: string
  template :: string
  policy :: string

datatype link_table = ladon_policy_subject | ladon_policy_permission | ladon_policy_resource

record database =
  ladon_policy :: "policy_row list"
  links :: "link_table \<Rightarrow> link_row list"

text \<open>The statements and the one-column queries that the store sends.\<close>

datatype stmt =
    InsertPolicy policy_row
  | InsertLink link_table link_row
  | DeletePolicy string

datatype query =
    SelectTemplates link_table string
  | SelectSubjectMatches string
  | SelectGlobals

text \<open>
  The calls of \<open>database/sql\<close> that the store makes. A backend can fail any of them for a
  reason of its own (a lost connection, a malformed uuid, a full disk): \<open>faults\<close> says which
  call fails and with which error. \<open>QueryRow i\<close> is the lookup of the policy row with the
  id \<open>i\<close>; \<open>Next q n\<close> is the call of \<open>rows.Next\<close> that fetches row \<open>n\<close> of the result of
  \<open>q\<close>, and \<open>Scan q n\<close> is \<open>rows.Scan\<close> on that row.
\<close>

datatype call =
    Begin
  | TxExec stmt
  | Commit
  | Rollback
  | Exec stmt
  | QueryRow string
  | Query query
  | Next query nat
  | Scan query nat

type_synonym faults = "call \<Rightarrow> error option"

text \<open>
  The collaborators whose code is outside the store: \<open>compiler.CompileRegex\<close> (the text of the
  compiled pattern, or the error with which it returns a nil pattern), the operator \<open>~*\<close> of
  the database (\<open>regex_imatch s p\<close> is \<open>s ~* p\<close>), \<open>json.Marshal\<close> and \<open>json.Unmarshal\<close> on the
  conditions.
\<close>

record 'c collaborators =
  CompileRegex :: "string \<Rightarrow> char \<Rightarrow> char \<Rightarrow> error + string"
  regex_imatch :: "string \<Rightarrow> string \<Rightarrow> bool"
  Marshal :: "'c list \<Rightarrow> error + string"
  Unmarshal :: "string \<Rightarrow> error + 'c list option"

subsection \<open>Statements\<close>

text \<open>
  \<open>INSERT INTO ladon_policy\<close> is refused by the primary key on \<open>id\<close> and by the
  \<open>CHECK\<close> on \<open>effect\<close>; an insert into a link table by the foreign key \<open>policy\<close> and by
  the primary key \<open>(template, policy)\<close>; \<open>DELETE FROM ladon_policy WHERE id=$1\<close> cascades
  to the three link tables.
\<close>

fun exec_stmt :: "database \<Rightarrow> stmt \<Rightarrow> error + database" where
  "exec_stmt d (InsertPolicy r) =
     (if id_col r \<in> set (map id_col (ladon_policy d)) then Inl (BackendError ''unique_violation'')
      else if effect_col r \<noteq> ''allow'' \<and> effect_col r \<noteq> ''deny''
        then Inl (BackendError ''check_violation'')
      else Inr (d\<lparr>ladon_policy := ladon_policy d @ [r]\<rparr>))"
| "exec_stmt d (InsertLink t r) =
     (if policy r \<notin> set (map id_col (ladon_policy d))
        then Inl (BackendError ''foreign_key_violation'')
      else if (template r, policy r) \<in> set (map (\<lambda>x. (template x, policy x)) (links d t))
        then Inl (BackendError ''unique_violation'')
      else Inr (d\<lparr>links := (links d)(t := links d t @ [r])\<rparr>))"
| "exec_stmt d (DeletePolicy i) =
     Inr \<lparr>ladon_policy = filter (\<lambda>r. id_col r \<noteq> i) (ladon_policy d),
          links = (\<lambda>t. filter (\<lambda>r. policy r \<noteq> i) (links d t))\<rparr>"

subsection \<open>Queries\<close>

text \<open>
  The one-column queries of the store:
  \<^item> \<open>SELECT template FROM <table> WHERE policy=$1\<close>;
  \<^item> \<open>SELECT policy FROM ladon_policy_subject WHERE $1 ~* ('^' || compiled || '$')\<close>;
  \<^item> \<open>SELECT id FROM ladon_policy p LEFT JOIN ladon_policy_subject ps ON p.id = ps.policy
     WHERE ps.policy IS NULL\<close>.
  The query with four columns,
  \<open>SELECT id, description, effect, conditions FROM ladon_policy WHERE id=$1\<close>, is
  \<open>db_QueryRow\<close> below.
\<close>

fun select_column :: "(string \<Rightarrow> string \<Rightarrow> bool) \<Rightarrow> database \<Rightarrow> query \<Rightarrow> string list" where
  "select_column m d (SelectTemplates t i) = map template (filter (\<lambda>r. policy r = i) (links d t))"
| "select_column m d (SelectSubjectMatches s) =
     map policy (filter (\<lambda>r. m s (''^'' @ compiled r @ ''$'')) (links d ladon_policy_subject))"
| "select_column m d SelectGlobals =
     map id_col (filter (\<lambda>p. id_col p \<notin> set (map policy (links d ladon_policy_subject)))
                        (ladon_policy d))"

subsection \<open>The calls of database/sql\<close>

definition db_Begin :: "faults \<Rightarrow> database \<Rightarrow> error + database" where
  "db_Begin env d = (case env Begin of Some e \<Rightarrow> Inl e | None \<Rightarrow> Inr d)"

definition tx_Exec :: "faults \<Rightarrow> database \<Rightarrow> stmt \<Rightarrow> error + database" where
  "tx_Exec env tx s = (case env (TxExec s) of Some e \<Rightarrow> Inl e | None \<Rightarrow> exec_stmt tx s)"

definition tx_Commit :: "faults \<Rightarrow> error option" where
  "tx_Commit env = env Commit"

definition tx_Rollback :: "faults \<Rightarrow> error option" where
  "tx_Rollback env = env Rollback"

definition db_Exec :: "faults \<Rightarrow> database \<Rightarrow> stmt \<Rightarrow> error + database" where
  "db_Exec env d s = (case env (Exec s) of Some e \<Rightarrow> Inl e | None \<Rightarrow> exec_stmt d s)"

text \<open>
  \<open>db.QueryRow(...).Scan(...)\<close> on the policy table: \<open>sql.ErrNoRows\<close> when no row has the
  id, the row otherwise.
\<close>

definition db_QueryRow :: "faults \<Rightarrow> database \<Rightarrow> string \<Rightarrow> error + policy_row" where
  "db_QueryRow env d i =
     (case env (QueryRow i) of
        Some e \<Rightarrow> Inl e
      | None \<Rightarrow> (case find (\<lambda>r. id_col r = i) (ladon_policy d) of
                   None \<Rightarrow> Inl ErrNoRows
                 | Some r \<Rightarrow> Inr r))"

text \<open>
  The rows that an iteration \<open>for rows.Next() { ... rows.Scan(&x) ... }\<close> meets, each given
  as what \<open>rows.Scan\<close> returns on it. When \<open>rows.Next\<close> fails to fetch a row it returns
  false, as it does after the last row, and keeps the error for \<open>rows.Err\<close>: the iteration
  ends there.
\<close>

fun deliver :: "faults \<Rightarrow> query \<Rightarrow> nat \<Rightarrow> string list \<Rightarrow> (error + string) list" where
  "deliver env q n [] = []"
| "deliver env q n (v # vs) =
     (case env (Next q n) of
        Some e \<Rightarrow> []
      | None \<Rightarrow> (case env (Scan q n) of Some e \<Rightarrow> Inl e | None \<Rightarrow> Inr v)
                  # deliver env q (Suc n) vs)"

text \<open>
  \<open>db.Query\<close>: an error, or the rows; a query that selects no row succeeds with no rows.
\<close>

definition db_Query ::
  "faults \<Rightarrow> (string \<Rightarrow> string \<Rightarrow> bool) \<Rightarrow> database \<Rightarrow> query \<Rightarrow> error + (error + string) list" where
  "db_Query env m d q =
     (case env (Query q) of
        Some e \<Rightarrow> Inl e
      | None \<Rightarrow> Inr (deliver env q 0 (select_column m d q)))"

section \<open>The store\<close>

subsection \<open>Create\<close>

text \<open>
  \<open>createLink\<close>: the error of \<open>CompileRegex\<close> is assigned to \<open>err\<close> and overwritten by
  the result of \<open>tx.Exec\<close>; when the compilation failed, \<open>reg\<close> is nil and \<open>reg.String()\<close>
  panics. The transaction is passed on as it stands after each insert.
\<close>

fun createLink ::
  "faults \<Rightarrow> 'c collaborators \<Rightarrow> database \<Rightarrow> link_table \<Rightarrow> 'c Policy \<Rightarrow> string list
     \<Rightarrow> error option go \<times> database" where
  "createLink env col tx table p [] = (Return None, tx)"
| "createLink env col tx table p (tpl # templates) =
     (case CompileRegex col tpl (GetStartDelimiter p) (GetEndDelimiter p) of
        Inl err \<Rightarrow> (Panic, tx)
      | Inr reg \<Rightarrow>
          (case tx_Exec env tx
                  (InsertLink table \<lparr>compiled = reg, template = tpl, policy = GetID p\<rparr>) of
             Inl err \<Rightarrow>
               (case tx_Rollback env of
                  Some rb \<Rightarrow> (Return (Some rb), tx)
                | None \<Rightarrow> (Return (Some err), tx))
           | Inr tx' \<Rightarrow> createLink env col tx' table p templates))"

text \<open>The conditions as \<open>Create\<close> stores them: \<open>[]\<close> for a nil slice.\<close>

definition marshal_conditions :: "'c collaborators \<Rightarrow> 'c Policy \<Rightarrow> error + string" where
  "marshal_conditions col p =
     (case GetConditions p of None \<Rightarrow> Inr ''[]'' | Some cs \<Rightarrow> Marshal col cs)"

text \<open>
  \<open>Create\<close> returns its result and the database as every reader sees it afterwards: the
  transaction's work is visible only once \<open>tx.Commit\<close> has succeeded. On the paths that
  return before, the transaction is rolled back by \<open>createLink\<close> or left open (after a
  failed insert of the policy row, and when \<open>createLink\<close> panics); either way readers see
  the database as it was.
\<close>

definition Create ::
  "faults \<Rightarrow> 'c collaborators \<Rightarrow> database \<Rightarrow> 'c Policy \<Rightarrow> error option go \<times> database" where
  "Create env col d p =
     (case marshal_conditions col p of
        Inl err \<Rightarrow> (Return (Some err), d)
      | Inr conditions \<Rightarrow>
     (case db_Begin env d of
        Inl err \<Rightarrow> (Return (Some err), d)
      | Inr tx \<Rightarrow>
     (case tx_Exec env tx (InsertPolicy \<lparr>id_col = GetID p, description_col = GetDescription p,
                              effect_col = GetEffect p, conditions_col = conditions\<rparr>) of
        Inl err \<Rightarrow> (Return (Some err), d)
      | Inr tx1 \<Rightarrow>
     (case createLink env col tx1 ladon_policy_subject p (GetSubjects p) of
        (Panic, _) \<Rightarrow> (Panic, d)
      | (Return (Some err), _) \<Rightarrow> (Return (Some err), d)
      | (Return None, tx2) \<Rightarrow>
     (case createLink env col tx2 ladon_policy_permission p (GetPermissions p) of
        (Panic, _) \<Rightarrow> (Panic, d)
      | (Return (Some err), _) \<Rightarrow> (Return (Some err), d)
      | (Return None, tx3) \<Rightarrow>
     (case createLink env col tx3 ladon_policy_resource p (GetResources p) of
        (Panic, _) \<Rightarrow> (Panic, d)
      | (Return (Some err), _) \<Rightarrow> (Return (Some err), d)
      | (Return None, tx4) \<Rightarrow>
     (case tx_Commit env of
        Some err \<Rightarrow>
          (case tx_Rollback env of
             Some err' \<Rightarrow> (Return (Some err'), d)
           | None \<Rightarrow> (Return (Some err), d))
      | None \<Rightarrow> (Return None, tx4))))))))"

subsection \<open>Get\<close>

text \<open>
  The loop \<open>for rows.Next() { rows.Scan(&urn); urns = append(urns, urn) }\<close>, over the rows
  that \<open>rows.Next\<close> delivers. After the loop the store returns the list with a nil error;
  it does not call \<open>rows.Err\<close>.
\<close>

fun scan_rows :: "(error + string) list \<Rightarrow> string list \<Rightarrow> error + string list" where
  "scan_rows [] urns = Inr urns"
| "scan_rows (c # rows) urns =
     (case c of
        Inl err \<Rightarrow> Inl (Traced err)
      | Inr urn \<Rightarrow> scan_rows rows (urns @ [urn]))"

definition getLinked ::
  "faults \<Rightarrow> (string \<Rightarrow> string \<Rightarrow> bool) \<Rightarrow> database \<Rightarrow> link_table \<Rightarrow> string \<Rightarrow> error + string list" where
  "getLinked env m d table pol =
     (case db_Query env m d (SelectTemplates table pol) of
        Inl err \<Rightarrow> if err = ErrNoRows then Inl ErrNotFound else Inl (Traced err)
      | Inr rows \<Rightarrow> scan_rows rows [])"

definition Get ::
  "faults \<Rightarrow> 'c collaborators \<Rightarrow> database \<Rightarrow> string \<Rightarrow> error + 'c DefaultPolicy" where
  "Get env col d i =
     (case db_QueryRow env d i of
        Inl err \<Rightarrow> if err = ErrNoRows then Inl ErrNotFound else Inl (Traced err)
      | Inr r \<Rightarrow>
     (case Unmarshal col (conditions_col r) of
        Inl err \<Rightarrow> Inl (Traced err)
      | Inr cs \<Rightarrow>
     (case getLinked env (regex_imatch col) d ladon_policy_subject i of
        Inl err \<Rightarrow> Inl err
      | Inr subjects \<Rightarrow>
     (case getLinked env (regex_imatch col) d ladon_policy_permission i of
        Inl err \<Rightarrow> Inl err
      | Inr permissions \<Rightarrow>
     (case getLinked env (regex_imatch col) d ladon_policy_resource i of
        Inl err \<Rightarrow> Inl err
      | Inr resources \<Rightarrow>
          Inr \<lparr>ID = id_col r, Description = description_col r, Effect = effect_col r,
               Conditions = cs, Subjects = subjects, Permissions = permissions,
               Resources = resources\<rparr>)))))"

subsection \<open>Delete\<close>

definition Delete :: "faults \<Rightarrow> database \<Rightarrow> string \<Rightarrow> error option \<times> database" where
  "Delete env d i =
     (case db_Exec env d (DeletePolicy i) of
        Inl err \<Rightarrow> (Some err, d)
      | Inr d' \<Rightarrow> (None, d'))"

subsection \<open>FindPoliciesForSubject\<close>

text \<open>The closure \<open>find\<close>.\<close>

definition find_ids ::
  "faults \<Rightarrow> (string \<Rightarrow> string \<Rightarrow> bool) \<Rightarrow> database \<Rightarrow> query \<Rightarrow> error + string list" where
  "find_ids env m d q =
     (case db_Query env m d q of
        Inl err \<Rightarrow> if err = ErrNoRows then Inl ErrNotFound else Inl (Traced err)
      | Inr rows \<Rightarrow> scan_rows rows [])"

text \<open>The loop \<open>for _, id := range ids\<close> over the ids of the two queries.\<close>

fun get_each ::
  "faults \<Rightarrow> 'c collaborators \<Rightarrow> database \<Rightarrow> string list \<Rightarrow> 'c DefaultPolicy list
     \<Rightarrow> error + 'c DefaultPolicy list" where
  "get_each env col d [] policies = Inr policies"
| "get_each env col d (i # ids) policies =
     (case Get env col d i of
        Inl err \<Rightarrow> Inl err
      | Inr p \<Rightarrow> get_each env col d ids (policies @ [p]))"

definition FindPoliciesForSubject ::
  "faults \<Rightarrow> 'c collaborators \<Rightarrow> database \<Rightarrow> string \<Rightarrow> error + 'c DefaultPolicy list" where
  "FindPoliciesForSubject env col d subject =
     (case find_ids env (regex_imatch col) d (SelectSubjectMatches subject) of
        Inl err \<Rightarrow> Inl err
      | Inr subjects \<Rightarrow>
     (case find_ids env (regex_imatch col) d SelectGlobals of
        Inl err \<Rightarrow> Inl err
      | Inr globals \<Rightarrow> get_each env col d (subjects @ globals) []))"

section \<open>The collaborators, on a fragment\<close>

subsection \<open>Regular expressions\<close>

text \<open>
  Modelled from the spec: the regular-expression match of the storage backend, which is not
  under src/. It is the operator \<open>~*\<close> of the subject query (an unanchored,
  case-insensitive search; the query adds the anchors), on the fragment of the syntax that
  the templates below use: characters, \<open>.\<close>, bracket
  expressions with ranges and negation, groups, \<open>|\<close>, the quantifiers \<open>*\<close>, \<open>+\<close>, \<open>?\<close>,
  the anchors \<open>^\<close> and \<open>$\<close>, and a backslash before a character that is not a letter or a
  digit. A pattern outside the fragment matches nothing. The matcher takes a flag: with it
  letters are compared without regard to case, as \<open>~*\<close> does; without it a letter matches
  only itself, as in the operator \<open>~\<close> and in the pattern that the template compiler
  returns.
\<close>

datatype rx =
    Eps
  | Lit char
  | Dot
  | Cls bool "(char \<times> char) list"
  | Bol
  | Eol
  | Cat rx rx
  | Alt rx rx
  | Star rx

definition backslash :: char where
  "backslash = CHR 0x5C"

definition lower :: "char \<Rightarrow> char" where
  "lower c = (case map_of (zip ''ABCDEFGHIJKLMNOPQRSTUVWXYZ'' ''abcdefghijklmnopqrstuvwxyz'') c of
                Some l \<Rightarrow> l | None \<Rightarrow> c)"

definition upper :: "char \<Rightarrow> char" where
  "upper c = (case map_of (zip ''abcdefghijklmnopqrstuvwxyz'' ''ABCDEFGHIJKLMNOPQRSTUVWXYZ'') c of
                Some u \<Rightarrow> u | None \<Rightarrow> c)"

definition in_ranges :: "(char \<times> char) list \<Rightarrow> char \<Rightarrow> bool" where
  "in_ranges rs c =
     list_ex (\<lambda>(a, b). (of_char a :: nat) \<le> of_char c \<and> (of_char c :: nat) \<le> of_char b) rs"

text \<open>
  A configuration of the matcher: whether it still stands at the beginning of the subject,
  and the rest of the subject.
\<close>

type_synonym cfg = "bool \<times> string"

definition eat :: "(char \<Rightarrow> bool) \<Rightarrow> cfg list \<Rightarrow> cfg list" where
  "eat ok cs = concat (map (\<lambda>(b, s). case s of [] \<Rightarrow> [] | c # t \<Rightarrow> if ok c then [(False, t)] else []) cs)"

primrec iter :: "nat \<Rightarrow> (cfg list \<Rightarrow> cfg list) \<Rightarrow> cfg list \<Rightarrow> cfg list" where
  "iter 0 f cs = cs"
| "iter (Suc n) f cs = cs @ iter n f (remdups (f cs))"

definition longest :: "cfg list \<Rightarrow> nat" where
  "longest cs = foldr (\<lambda>(b, s) n. max (length s) n) cs 0"

definition same_char :: "bool \<Rightarrow> char \<Rightarrow> char \<Rightarrow> bool" where
  "same_char ic a c = (if ic then lower c = lower a else c = a)"

definition in_class :: "bool \<Rightarrow> (char \<times> char) list \<Rightarrow> char \<Rightarrow> bool" where
  "in_class ic rs c =
     (in_ranges rs c \<or> (ic \<and> (in_ranges rs (lower c) \<or> in_ranges rs (upper c))))"

primrec run :: "bool \<Rightarrow> rx \<Rightarrow> cfg list \<Rightarrow> cfg list" where
  "run ic Eps cs = cs"
| "run ic (Lit a) cs = eat (same_char ic a) cs"
| "run ic Dot cs = eat (\<lambda>c. True) cs"
| "run ic (Cls neg rs) cs = eat (\<lambda>c. in_class ic rs c \<noteq> neg) cs"
| "run ic Bol cs = filter (\<lambda>(b, s). b) cs"
| "run ic Eol cs = filter (\<lambda>(b, s). s = []) cs"
| "run ic (Cat r1 r2) cs = run ic r2 (run ic r1 cs)"
| "run ic (Alt r1 r2) cs = run ic r1 cs @ run ic r2 cs"
| "run ic (Star r) cs = iter (Suc (longest cs)) (run ic r) cs"

fun tails :: "string \<Rightarrow> string list" where
  "tails [] = []"
| "tails (c # s) = s # tails s"

text \<open>The search: a match may start at the beginning of the subject or after any character of it.\<close>

definition rx_search :: "bool \<Rightarrow> rx \<Rightarrow> string \<Rightarrow> bool" where
  "rx_search ic r s = (run ic r ((True, s) # map (Pair False) (tails s)) \<noteq> [])"

text \<open>
  The parser reads the pattern character by character with a stack of open groups; a frame
  holds the alternatives closed so far and the sequence being read.
\<close>

datatype pmode = Normal | Escape | Class string

type_synonym frame = "rx list \<times> rx list"

fun alt_of :: "rx list \<Rightarrow> rx" where
  "alt_of [] = Eps"
| "alt_of [r] = r"
| "alt_of (r # rs) = Alt r (alt_of rs)"

definition close_frame :: "frame \<Rightarrow> rx" where
  "close_frame f = alt_of (fst f @ [foldr Cat (snd f) Eps])"

fun class_items :: "string \<Rightarrow> (char \<times> char) list" where
  "class_items (a # m # b # rest) =
     (if m = CHR ''-'' then (a, b) # class_items rest else (a, a) # class_items (m # b # rest))"
| "class_items (a # rest) = (a, a) # class_items rest"
| "class_items [] = []"

definition class_of :: "string \<Rightarrow> rx" where
  "class_of body =
     (case body of
        c # rest \<Rightarrow> if c = CHR ''^'' then Cls True (class_items rest) else Cls False (class_items body)
      | [] \<Rightarrow> Cls False [])"

definition quantify :: "(rx \<Rightarrow> rx) \<Rightarrow> frame \<Rightarrow> frame list \<Rightarrow> (pmode \<times> frame list) option" where
  "quantify q f st =
     (if snd f = [] then None
      else Some (Normal, (fst f, butlast (snd f) @ [q (last (snd f))]) # st))"

definition push_atom :: "rx \<Rightarrow> frame \<Rightarrow> frame list \<Rightarrow> (pmode \<times> frame list) option" where
  "push_atom r f st = Some (Normal, (fst f, snd f @ [r]) # st)"

fun parse_step :: "char \<Rightarrow> pmode \<times> frame list \<Rightarrow> (pmode \<times> frame list) option" where
  "parse_step c (m, []) = None"
| "parse_step c (Escape, f # st) =
     (if c \<in> set ''abcdefghijklmnopqrstuvwxyzABCDEFGHIJKLMNOPQRSTUVWXYZ0123456789'' then None
      else push_atom (Lit c) f st)"
| "parse_step c (Class body, f # st) =
     (if c = CHR '']'' \<and> body \<noteq> [] \<and> body \<noteq> ''^'' then push_atom (class_of body) f st
      else Some (Class (body @ [c]), f # st))"
| "parse_step c (Normal, f # st) =
     (if c = backslash then Some (Escape, f # st)
      else if c = CHR ''['' then Some (Class [], f # st)
      else if c = CHR ''('' then Some (Normal, ([], []) # f # st)
      else if c = CHR '')'' then
        (case st of [] \<Rightarrow> None | g # st' \<Rightarrow> push_atom (close_frame f) g st')
      else if c = CHR ''|'' then Some (Normal, (fst f @ [foldr Cat (snd f) Eps], []) # st)
      else if c = CHR ''*'' then quantify Star f st
      else if c = CHR ''+'' then quantify (\<lambda>r. Cat r (Star r)) f st
      else if c = CHR ''?'' then quantify (\<lambda>r. Alt r Eps) f st
      else if c = CHR ''{'' \<or> c = CHR ''}'' \<or> c = CHR '']'' then None
      else if c = CHR ''.'' then push_atom Dot f st
      else if c = CHR ''^'' then push_atom Bol f st
      else if c = CHR ''$'' then push_atom Eol f st
      else push_atom (Lit c) f st)"

fun parse_from :: "string \<Rightarrow> pmode \<times> frame list \<Rightarrow> rx option" where
  "parse_from [] (m, st) =
     (case st of [f] \<Rightarrow> if m = Normal then Some (close_frame f) else None | _ \<Rightarrow> None)"
| "parse_from (c # cs) ps =
     (case parse_step c ps of None \<Rightarrow> None | Some ps' \<Rightarrow> parse_from cs ps')"

definition parse_rx :: "string \<Rightarrow> rx option" where
  "parse_rx p = parse_from p (Normal, [([], [])])"

text \<open>\<open>pg_imatch s p\<close> is \<open>s ~* p\<close>, and \<open>pg_match s p\<close> is \<open>s ~ p\<close>.\<close>

definition pg_imatch :: "string \<Rightarrow> string \<Rightarrow> bool" where
  "pg_imatch s p = (case parse_rx p of None \<Rightarrow> False | Some r \<Rightarrow> rx_search True r s)"

definition pg_match :: "string \<Rightarrow> string \<Rightarrow> bool" where
  "pg_match s p = (case parse_rx p of None \<Rightarrow> False | Some r \<Rightarrow> rx_search False r s)"

subsection \<open>The template compiler\<close>

text \<open>
  Modelled from the spec: \<open>compiler.CompileRegex\<close> of \<open>github.com/ory-am/common\<close>, which is
  not under src/. The spec's TemplateMatcher: the template is scanned left to right; a run of
  characters outside a \<open>start\<close>...\<open>end\<close> pair is literal text and is escaped; the inner
  content of a pair is inserted as it is, as one group; the pattern is anchored at both
  ends; the compilation fails when the delimiters are unbalanced or when an inner fragment
  is not a regular expression.
\<close>

definition QuoteMeta :: "string \<Rightarrow> string" where
  "QuoteMeta s =
     concat (map (\<lambda>c. if c = backslash \<or> c \<in> set ''.+*?()|[]{}^$'' then [backslash, c] else [c]) s)"

fun compile_scan :: "char \<Rightarrow> char \<Rightarrow> string \<Rightarrow> bool \<Rightarrow> string \<Rightarrow> string \<Rightarrow> error + string" where
  "compile_scan st en [] inside buf out =
     (if inside then Inl (CompileError ''unbalanced delimiters'')
      else Inr (out @ QuoteMeta buf))"
| "compile_scan st en (c # cs) inside buf out =
     (if inside then
        (if c = en then
           (if parse_rx buf = None then Inl (CompileError ''invalid fragment'')
            else compile_scan st en cs False [] (out @ ''('' @ buf @ '')''))
         else compile_scan st en cs True (buf @ [c]) out)
      else
        (if c = st then compile_scan st en cs True [] (out @ QuoteMeta buf)
         else if c = en then Inl (CompileError ''unbalanced delimiters'')
         else compile_scan st en cs False (buf @ [c]) out))"

definition compile_template :: "string \<Rightarrow> char \<Rightarrow> char \<Rightarrow> error + string" where
  "compile_template tpl st en =
     (case compile_scan st en tpl False [] [] of
        Inl err \<Rightarrow> Inl err
      | Inr body \<Rightarrow> Inr (''^'' @ body @ ''$''))"

subsection \<open>Conditions\<close>

text \<open>
  Modelled from the spec: the serialization of the conditions (\<open>encoding/json\<close>, which is
  not under src/), on conditions that are plain words: a list is written as a JSON array of
  strings, and a word with a quote, a comma or a backslash is refused.
\<close>

definition json_word :: "string \<Rightarrow> bool" where
  "json_word w = list_all (\<lambda>c. c \<noteq> CHR 0x22 \<and> c \<noteq> CHR '','' \<and> c \<noteq> backslash) w"

fun json_items :: "string list \<Rightarrow> string" where
  "json_items [] = []"
| "json_items [w] = CHR 0x22 # w @ [CHR 0x22]"
| "json_items (w # ws) = CHR 0x22 # w @ [CHR 0x22] @ '','' @ json_items ws"

definition json_Marshal :: "string list \<Rightarrow> error + string" where
  "json_Marshal cs =
     (if list_all json_word cs then Inr (''['' @ json_items cs @ '']'')
      else Inl (JsonError ''unsupported value''))"

fun split_commas :: "string \<Rightarrow> string \<Rightarrow> string list" where
  "split_commas [] cur = [cur]"
| "split_commas (c # s) cur = (if c = CHR '','' then cur # split_commas s [] else split_commas s (cur @ [c]))"

definition unquote :: "string \<Rightarrow> string option" where
  "unquote s =
     (if 2 \<le> length s \<and> hd s = CHR 0x22 \<and> last s = CHR 0x22 \<and> json_word (butlast (tl s))
      then Some (butlast (tl s)) else None)"

definition json_Unmarshal :: "string \<Rightarrow> error + string list option" where
  "json_Unmarshal b =
     (if b = ''null'' then Inr None
      else if b = ''[]'' then Inr (Some [])
      else if 2 \<le> length b \<and> hd b = CHR ''['' \<and> last b = CHR '']'' then
        (case those (map unquote (split_commas (butlast (tl b)) [])) of
           Some ws \<Rightarrow> Inr (Some ws)
         | None \<Rightarrow> Inl (JsonError ''invalid value''))
      else Inl (JsonError ''invalid value''))"

definition std_collaborators :: "string collaborators" where
  "std_collaborators =
     \<lparr>CompileRegex = compile_template, regex_imatch = pg_imatch,
      Marshal = json_Marshal, Unmarshal = json_Unmarshal\<rparr>"

definition no_faults :: faults where
  "no_faults = (\<lambda>c. None)"

section \<open>Notions used by the properties\<close>

text \<open>
  The constraints of \<open>schemas\<close>: the primary key and the \<open>CHECK\<close> of \<open>ladon_policy\<close>, and
  for each link table its primary key and its foreign key.
\<close>

definition wf_links :: "database \<Rightarrow> link_table \<Rightarrow> bool" where
  "wf_links d t \<longleftrightarrow>
     distinct (map (\<lambda>r. (template r, policy r)) (links d t)) \<and>
     set (map policy (links d t)) \<subseteq> set (map id_col (ladon_policy d))"

definition wf_db :: "database \<Rightarrow> bool" where
  "wf_db d \<longleftrightarrow>
     distinct (map id_col (ladon_policy d)) \<and>
     list_all (\<lambda>r. effect_col r = ''allow'' \<or> effect_col r = ''deny'') (ladon_policy d) \<and>
     wf_links d ladon_policy_subject \<and> wf_links d ladon_policy_permission \<and>
     wf_links d ladon_policy_resource"

text \<open>The elements of a slice: a nil slice and an empty slice both have none.\<close>

definition elems :: "'a list option \<Rightarrow> 'a list" where
  "elems s = (case s of None \<Rightarrow> [] | Some xs \<Rightarrow> xs)"

text \<open>The rows that a successful \<open>Create\<close> inserts.\<close>

definition policy_entry :: "'c Policy \<Rightarrow> string \<Rightarrow> policy_row" where
  "policy_entry p conditions =
     \<lparr>id_col = GetID p, description_col = GetDescription p, effect_col = GetEffect p,
      conditions_col = conditions\<rparr>"

definition link_entry :: "'c collaborators \<Rightarrow> 'c Policy \<Rightarrow> string \<Rightarrow> link_row" where
  "link_entry col p tpl =
     \<lparr>compiled = (case CompileRegex col tpl (GetStartDelimiter p) (GetEndDelimiter p) of
                    Inr reg \<Rightarrow> reg | Inl err \<Rightarrow> []),
      template = tpl, policy = GetID p\<rparr>"

definition templates_of :: "'c Policy \<Rightarrow> link_table \<Rightarrow> string list" where
  "templates_of p t =
     (case t of ladon_policy_subject \<Rightarrow> GetSubjects p
      | ladon_policy_permission \<Rightarrow> GetPermissions p
      | ladon_policy_resource \<Rightarrow> GetResources p)"

text \<open>The record of a policy row with all the templates that the link tables hold for it.\<close>

definition hydrated ::
  "'c collaborators \<Rightarrow> database \<Rightarrow> policy_row \<Rightarrow> 'c list option \<Rightarrow> 'c DefaultPolicy" where
  "hydrated col d r cs =
     \<lparr>ID = id_col r, Description = description_col r, Effect = effect_col r, Conditions = cs,
      Subjects = select_column (regex_imatch col) d (SelectTemplates ladon_policy_subject (id_col r)),
      Permissions = select_column (regex_imatch col) d (SelectTemplates ladon_policy_permission (id_col r)),
      Resources = select_column (regex_imatch col) d (SelectTemplates ladon_policy_resource (id_col r))\<rparr>"

text \<open>
  A pattern matches the whole of a subject when the matcher, started at the first character
  of the subject and nowhere else, can stop after its last character, with nothing left.
\<close>

definition whole :: "bool \<Rightarrow> rx \<Rightarrow> string \<Rightarrow> bool" where
  "whole ic r s = list_ex (\<lambda>(b, t). t = []) (run ic r [(True, s)])"

definition matches_whole :: "bool \<Rightarrow> string \<Rightarrow> string \<Rightarrow> bool" where
  "matches_whole ic p s = (case parse_rx p of None \<Rightarrow> False | Some r \<Rightarrow> whole ic r s)"

text \<open>
  The states of the parser after the characters of a part of a pattern; and a part that,
  wherever it stands, adds a sequence of atoms to the sequence being read and nothing else:
  it opens no group that it does not close and has no \<open>|\<close> outside a group.
\<close>

fun parse_steps :: "string \<Rightarrow> pmode \<times> frame list \<Rightarrow> (pmode \<times> frame list) option" where
  "parse_steps [] ps = Some ps"
| "parse_steps (c # cs) ps =
     (case parse_step c ps of None \<Rightarrow> None | Some ps' \<Rightarrow> parse_steps cs ps')"

definition sequence_of :: "string \<Rightarrow> rx list \<Rightarrow> bool" where
  "sequence_of p atoms =
     (\<forall>f st. parse_steps p (Normal, f # st) = Some (Normal, (fst f, snd f @ atoms) # st))"


subsection \<open>Examples\<close>

definition empty_db :: database where
  "empty_db = \<lparr>ladon_policy = [], links = (\<lambda>t. [])\<rparr>"

text \<open>The policy of the spec's example scenario, with one condition.\<close>

definition example_policy :: "string Policy" where
  "example_policy =
     \<lparr>GetID = ''p1'', GetDescription = ''readers'', GetEffect = ''allow'',
      GetConditions = Some [''owner''], GetSubjects = [''users:<.+>''],
      GetPermissions = [''view''], GetResources = [''articles:1''],
      GetStartDelimiter = CHR ''<'', GetEndDelimiter = CHR ''>''\<rparr>"

text \<open>The JSON text \<open>["owner"]\<close>.\<close>

definition owner_blob :: string where
  "owner_blob = [CHR ''['', CHR 0x22, CHR ''o'', CHR ''w'', CHR ''n'', CHR ''e'', CHR ''r'', CHR 0x22, CHR '']'']"

definition example_db :: database where
  "example_db = snd (Create no_faults std_collaborators empty_db example_policy)"

text \<open>A policy with no subject and no resource.\<close>

definition global_policy :: "string Policy" where
  "global_policy =
     \<lparr>GetID = ''g1'', GetDescription = ''everyone'', GetEffect = ''deny'',
      GetConditions = None, GetSubjects = [],
      GetPermissions = [''delete''], GetResources = [],
      GetStartDelimiter = CHR ''<'', GetEndDelimiter = CHR ''>''\<rparr>"

definition example_db2 :: database where
  "example_db2 = snd (Create no_faults std_collaborators example_db global_policy)"

text \<open>A policy with two subject templates that both match \<open>users:alice\<close>.\<close>

definition wide_policy :: "string Policy" where
  "wide_policy =
     \<lparr>GetID = ''w1'', GetDescription = ''members'', GetEffect = ''allow'',
      GetConditions = None, GetSubjects = [''users:<.+>'', ''<.+>:alice''],
      GetPermissions = [''view''], GetResources = [''articles:1''],
      GetStartDelimiter = CHR ''<'', GetEndDelimiter = CHR ''>''\<rparr>"

definition wide_db :: database where
  "wide_db = snd (Create no_faults std_collaborators empty_db wide_policy)"

text \<open>A policy whose only subject template is \<open><[0-9]+>\<close>.\<close>

definition digits_policy :: "string Policy" where
  "digits_policy =
     \<lparr>GetID = ''d1'', GetDescription = ''numbered'', GetEffect = ''allow'',
      GetConditions = None, GetSubjects = [''<[0-9]+>''],
      GetPermissions = [''view''], GetResources = [''articles:1''],
      GetStartDelimiter = CHR ''<'', GetEndDelimiter = CHR ''>''\<rparr>"

definition digits_db :: database where
  "digits_db = snd (Create no_faults std_collaborators empty_db digits_policy)"

text \<open>Rows appended to one link table.\<close>

definition add_links :: "database \<Rightarrow> link_table \<Rightarrow> link_row list \<Rightarrow> database" where
  "add_links tx t rs = tx\<lparr>links := (links tx)(t := links tx t @ rs)\<rparr>"

text \<open>The database after a \<open>Create\<close> that commits: one policy row and the link entries of the three dimensions.\<close>

definition created :: "'c collaborators \<Rightarrow> 'c Policy \<Rightarrow> string \<Rightarrow> database \<Rightarrow> database" where
  "created col p blob d =
     add_links
       (add_links
          (add_links (d\<lparr>ladon_policy := ladon_policy d @ [policy_entry p blob]\<rparr>)
             ladon_policy_subject (map (link_entry col p) (GetSubjects p)))
          ladon_policy_permission (map (link_entry col p) (GetPermissions p)))
       ladon_policy_resource (map (link_entry col p) (GetResources p))"

text \<open>
  Backends that fail: the insert into \<open>ladon_policy_resource\<close> is refused; the rollback
  fails as well; the commit and the rollback fail.
\<close>

definition resource_fault :: faults where
  "resource_fault =
     no_faults
       (TxExec (InsertLink ladon_policy_resource
                  \<lparr>compiled = ''^articles:1$'', template = ''articles:1'', policy = ''p1''\<rparr>) :=
          Some (BackendError ''insert refused''))"



text \<open>
  A backend that loses the connection while the subject templates of \<open>w1\<close> are read: the
  first row arrives, and the call of \<open>rows.Next\<close> for the second one fails.
\<close>

definition lost_connection :: faults where
  "lost_connection =
     no_faults
       (Next (SelectTemplates ladon_policy_subject ''w1'') 1 := Some (BackendError ''connection lost''))"

text \<open>A policy with a subject template whose delimiter is not closed.\<close>

definition unterminated_policy :: "string Policy" where
  "unterminated_policy =
     \<lparr>GetID = ''u1'', GetDescription = ''broken'', GetEffect = ''allow'',
      GetConditions = None, GetSubjects = [''users:<unterminated''],
      GetPermissions = [''view''], GetResources = [''articles:1''],
      GetStartDelimiter = CHR ''<'', GetEndDelimiter = CHR ''>''\<rparr>"

section \<open>Properties\<close>

subsection \<open>Rows and queries\<close>

lemma scan_rows_Inr: "scan_rows (map Inr vs) acc = Inr (acc @ vs)"
  by (induction vs arbitrary: acc) simp_all

lemma scan_rows_result:
  "scan_rows cells acc = Inr xs \<Longrightarrow> \<exists>vs. cells = map Inr vs \<and> xs = acc @ vs"
proof (induction cells arbitrary: acc)
  case Nil
  then show ?case by simp
next
  case (Cons c cells)
  show ?case
  proof (cases c)
    case (Inl e)
    with Cons.prems show ?thesis by simp
  next
    case (Inr v)
    with Cons.prems have "scan_rows cells (acc @ [v]) = Inr xs" by simp
    from Cons.IH [OF this] obtain vs where "cells = map Inr vs" "xs = (acc @ [v]) @ vs" by blast
    with Inr have "c # cells = map Inr (v # vs) \<and> xs = acc @ (v # vs)" by simp
    then show ?thesis by (intro exI [of _ "v # vs"])
  qed
qed

lemma scan_rows_error: "scan_rows cells acc = Inl e \<Longrightarrow> \<exists>e'. e = Traced e'"
  by (induction cells arbitrary: acc) (auto split: sum.splits)

lemma deliver_prefix: "deliver env q k vs = map Inr ws \<Longrightarrow> \<exists>rest. vs = ws @ rest"
  by (induction vs arbitrary: k ws) (auto split: option.splits)

lemma deliver_all_Inr:
  "\<forall>n. env (Next q n) = None \<Longrightarrow> deliver env q k vs = map Inr ws \<Longrightarrow> ws = vs"
  by (induction vs arbitrary: k ws) (auto split: option.splits)

lemma deliver_no_faults:
  "\<forall>n. env (Next q n) = None \<Longrightarrow> \<forall>n. env (Scan q n) = None \<Longrightarrow> deliver env q k vs = map Inr vs"
  by (induction vs arbitrary: k) auto

lemma find_ids_prefix:
  "find_ids env m d q = Inr xs \<Longrightarrow> \<exists>rest. select_column m d q = xs @ rest"
  by (auto simp: find_ids_def db_Query_def split: option.splits if_splits
      dest!: scan_rows_result deliver_prefix)

lemma find_ids_result:
  "\<forall>n. env (Next q n) = None \<Longrightarrow> find_ids env m d q = Inr xs \<Longrightarrow> xs = select_column m d q"
  by (auto simp: find_ids_def db_Query_def split: option.splits if_splits
      dest!: scan_rows_result deliver_all_Inr)

lemma find_ids_ok:
  "env (Query q) = None \<Longrightarrow> \<forall>n. env (Next q n) = None \<Longrightarrow> \<forall>n. env (Scan q n) = None \<Longrightarrow>
   find_ids env m d q = Inr (select_column m d q)"
  by (simp add: find_ids_def db_Query_def deliver_no_faults scan_rows_Inr)

lemma find_ids_empty:
  "env (Query q) = None \<Longrightarrow> select_column m d q = [] \<Longrightarrow> find_ids env m d q = Inr []"
  by (simp add: find_ids_def db_Query_def)

lemma getLinked_find_ids: "getLinked env m d t i = find_ids env m d (SelectTemplates t i)"
  by (simp add: getLinked_def find_ids_def)

lemma find_ids_NotFound:
  "find_ids env m d q = Inl ErrNotFound \<Longrightarrow> env (Query q) = Some ErrNoRows"
  by (auto simp: find_ids_def db_Query_def split: option.splits if_splits dest: scan_rows_error)


lemma db_QueryRow_Inr:
  "db_QueryRow env d i = Inr r \<Longrightarrow> find (\<lambda>r. id_col r = i) (ladon_policy d) = Some r \<and> id_col r = i"
  by (auto simp: db_QueryRow_def find_Some_iff split: option.splits)

lemma db_QueryRow_ok:
  "env (QueryRow i) = None \<Longrightarrow>
   db_QueryRow env d i = (case find (\<lambda>r. id_col r = i) (ladon_policy d) of None \<Rightarrow> Inl ErrNoRows | Some r \<Rightarrow> Inr r)"
  by (simp add: db_QueryRow_def)

lemma find_id_None: "find (\<lambda>r. id_col r = i) rows = None \<longleftrightarrow> i \<notin> set (map id_col rows)"
  by (auto simp: find_None_iff)

lemma find_id_Some: "find (\<lambda>r. id_col r = i) rows = Some r \<Longrightarrow> r \<in> set rows \<and> id_col r = i"
  by (auto simp: find_Some_iff)

lemma Get_fields:
  assumes "Get env col d i = Inr p"
  shows "\<exists>r cs s pm rs. find (\<lambda>r. id_col r = i) (ladon_policy d) = Some r \<and>
           Unmarshal col (conditions_col r) = Inr cs \<and>
           getLinked env (regex_imatch col) d ladon_policy_subject i = Inr s \<and>
           getLinked env (regex_imatch col) d ladon_policy_permission i = Inr pm \<and>
           getLinked env (regex_imatch col) d ladon_policy_resource i = Inr rs \<and>
           p = \<lparr>ID = i, Description = description_col r, Effect = effect_col r,
                Conditions = cs, Subjects = s, Permissions = pm, Resources = rs\<rparr>"
proof -
  from assms obtain r where r: "db_QueryRow env d i = Inr r"
    by (cases "db_QueryRow env d i") (auto simp: Get_def split: if_splits)
  from assms r obtain cs where cs: "Unmarshal col (conditions_col r) = Inr cs"
    by (cases "Unmarshal col (conditions_col r)") (auto simp: Get_def)
  from assms r cs obtain s where s: "getLinked env (regex_imatch col) d ladon_policy_subject i = Inr s"
    by (cases "getLinked env (regex_imatch col) d ladon_policy_subject i") (auto simp: Get_def)
  from assms r cs s obtain pm where pm: "getLinked env (regex_imatch col) d ladon_policy_permission i = Inr pm"
    by (cases "getLinked env (regex_imatch col) d ladon_policy_permission i") (auto simp: Get_def)
  from assms r cs s pm obtain rs where rs: "getLinked env (regex_imatch col) d ladon_policy_resource i = Inr rs"
    by (cases "getLinked env (regex_imatch col) d ladon_policy_resource i") (auto simp: Get_def)
  from assms r cs s pm rs have p: "p = \<lparr>ID = id_col r, Description = description_col r, Effect = effect_col r,
               Conditions = cs, Subjects = s, Permissions = pm, Resources = rs\<rparr>"
    by (simp add: Get_def)
  from r have f: "find (\<lambda>r. id_col r = i) (ladon_policy d) = Some r" and i: "id_col r = i"
    using db_QueryRow_Inr by blast+
  from p i have "p = \<lparr>ID = i, Description = description_col r, Effect = effect_col r,
               Conditions = cs, Subjects = s, Permissions = pm, Resources = rs\<rparr>"
    by simp
  with f cs s pm rs show ?thesis by blast
qed

lemma Get_Inr:
  assumes "Get env col d i = Inr p"
    and "\<forall>t n. env (Next (SelectTemplates t i) n) = None"
  shows "\<exists>r cs. find (\<lambda>r. id_col r = i) (ladon_policy d) = Some r \<and>
           Unmarshal col (conditions_col r) = Inr cs \<and> p = hydrated col d r cs"
proof -
  from Get_fields [OF assms(1)] obtain r cs s pm rs
    where f: "find (\<lambda>r. id_col r = i) (ladon_policy d) = Some r"
      and cs: "Unmarshal col (conditions_col r) = Inr cs"
      and s: "getLinked env (regex_imatch col) d ladon_policy_subject i = Inr s"
      and pm: "getLinked env (regex_imatch col) d ladon_policy_permission i = Inr pm"
      and rs: "getLinked env (regex_imatch col) d ladon_policy_resource i = Inr rs"
      and p: "p = \<lparr>ID = i, Description = description_col r, Effect = effect_col r,
                Conditions = cs, Subjects = s, Permissions = pm, Resources = rs\<rparr>"
    by blast
  have i: "id_col r = i" using f find_id_Some by blast
  have g: "getLinked env (regex_imatch col) d t i = Inr xs \<Longrightarrow>
           xs = select_column (regex_imatch col) d (SelectTemplates t i)" for t xs
    using assms(2) find_ids_result [of env "SelectTemplates t i" "regex_imatch col" d xs]
    by (simp add: getLinked_find_ids)
  from p i g [OF s] g [OF pm] g [OF rs] have "p = hydrated col d r cs"
    by (simp add: hydrated_def)
  with f cs show ?thesis by blast
qed


lemma Get_ok:
  assumes "env (QueryRow i) = None"
    and "\<forall>t. env (Query (SelectTemplates t i)) = None"
    and "\<forall>t n. env (Next (SelectTemplates t i) n) = None"
    and "\<forall>t n. env (Scan (SelectTemplates t i) n) = None"
    and "find (\<lambda>r. id_col r = i) (ladon_policy d) = Some r"
    and "Unmarshal col (conditions_col r) = Inr cs"
  shows "Get env col d i = Inr (hydrated col d r cs)"
proof -
  have i: "id_col r = i" using assms(5) find_id_Some by blast
  have q: "db_QueryRow env d i = Inr r"
    using assms(1,5) by (simp add: db_QueryRow_ok)
  have g: "getLinked env (regex_imatch col) d t i =
           Inr (select_column (regex_imatch col) d (SelectTemplates t i))" for t
    using assms(2,3,4) by (simp add: getLinked_find_ids find_ids_ok)
  show ?thesis
    by (simp add: Get_def hydrated_def q assms(6) g i)
qed

lemma Get_ID: "Get env col d i = Inr p \<Longrightarrow> ID p = i"
proof -
  assume "Get env col d i = Inr p"
  from Get_fields [OF this] show ?thesis by auto
qed

subsection \<open>The examples, evaluated\<close>

lemma compile_users: "compile_template ''users:<.+>'' (CHR ''<'') (CHR ''>'') = Inr ''^users:(.+)$''"
  by code_simp
lemma compile_view: "compile_template ''view'' (CHR ''<'') (CHR ''>'') = Inr ''^view$''"
  by code_simp
lemma compile_articles: "compile_template ''articles:1'' (CHR ''<'') (CHR ''>'') = Inr ''^articles:1$''"
  by code_simp
lemma marshal_owner: "json_Marshal [''owner''] = Inr owner_blob"
  by code_simp

lemma example_db_rows:
  "example_db =
     \<lparr>ladon_policy = [\<lparr>id_col = ''p1'', description_col = ''readers'', effect_col = ''allow'',
                        conditions_col = owner_blob\<rparr>],
      links = (\<lambda>t. [])
        (ladon_policy_subject := [\<lparr>compiled = ''^users:(.+)$'', template = ''users:<.+>'', policy = ''p1''\<rparr>],
         ladon_policy_permission := [\<lparr>compiled = ''^view$'', template = ''view'', policy = ''p1''\<rparr>],
         ladon_policy_resource := [\<lparr>compiled = ''^articles:1$'', template = ''articles:1'', policy = ''p1''\<rparr>])\<rparr>"
  by (simp add: example_db_def Create_def marshal_conditions_def example_policy_def
      std_collaborators_def marshal_owner compile_users compile_view compile_articles
      db_Begin_def tx_Exec_def tx_Commit_def no_faults_def empty_db_def)

subsection \<open>Get\<close>

text \<open>
  The outcomes of \<open>Get\<close>. As long as the backend answers the lookup of the policy row, and
  no query of a link table is answered with \<open>sql.ErrNoRows\<close> (which \<open>database/sql\<close>
  returns from \<open>Row.Scan\<close> only), \<open>Get\<close> returns \<open>ErrNotFound\<close> exactly when no row of
  \<open>ladon_policy\<close> has the id. When the row exists and the conditions cannot be decoded,
  \<open>Get\<close> returns that error (traced); when \<open>getLinked\<close> returns an error for one of the
  three dimensions, \<open>Get\<close> returns the error of a failing fetch; and when no call of
  \<open>rows.Next\<close> fails, a record that \<open>Get\<close> returns is the row with its decoded conditions
  and all the templates of each of the three link tables.
\<close>

lemma Get_outcomes:
  assumes "env (QueryRow i) = None"
    and "\<forall>t. env (Query (SelectTemplates t i)) \<noteq> Some ErrNoRows"
  shows "((Get env col d i = Inl ErrNotFound) = (i \<notin> set (map id_col (ladon_policy d)))) \<and>
    (\<forall>r e. find (\<lambda>r. id_col r = i) (ladon_policy d) = Some r \<and>
            Unmarshal col (conditions_col r) = Inl e \<longrightarrow> Get env col d i = Inl (Traced e)) \<and>
    (\<forall>r cs t e. find (\<lambda>r. id_col r = i) (ladon_policy d) = Some r \<and>
            Unmarshal col (conditions_col r) = Inr cs \<and>
            getLinked env (regex_imatch col) d t i = Inl e \<longrightarrow>
            (\<exists>t' e'. getLinked env (regex_imatch col) d t' i = Inl e' \<and> Get env col d i = Inl e')) \<and>
    (\<forall>p. Get env col d i = Inr p \<and> (\<forall>t n. env (Next (SelectTemplates t i) n) = None) \<longrightarrow>
       (\<exists>r cs. find (\<lambda>r. id_col r = i) (ladon_policy d) = Some r \<and>
          Unmarshal col (conditions_col r) = Inr cs \<and> p = hydrated col d r cs))"
proof (intro conjI allI impI)
  show "(Get env col d i = Inl ErrNotFound) = (i \<notin> set (map id_col (ladon_policy d)))"
  proof (cases "find (\<lambda>r. id_col r = i) (ladon_policy d)")
    case None
    moreover from None have "i \<notin> set (map id_col (ladon_policy d))"
      using find_id_None by blast
    ultimately show ?thesis using assms(1)
      by (simp add: Get_def db_QueryRow_ok)
  next
    case (Some r)
    then have "i \<in> set (map id_col (ladon_policy d))"
      using find_id_None [of i "ladon_policy d"] by simp
    moreover have "getLinked env (regex_imatch col) d t i \<noteq> Inl ErrNotFound" for t
      using assms(2) find_ids_NotFound [of env "regex_imatch col" d "SelectTemplates t i"]
      by (auto simp: getLinked_find_ids)
    then have "Get env col d i \<noteq> Inl ErrNotFound"
      using assms(1) Some by (auto simp: Get_def db_QueryRow_ok split: sum.splits)
    ultimately show ?thesis by simp
  qed
next
  fix r e
  assume "find (\<lambda>r. id_col r = i) (ladon_policy d) = Some r \<and> Unmarshal col (conditions_col r) = Inl e"
  with assms(1) show "Get env col d i = Inl (Traced e)"
    by (simp add: Get_def db_QueryRow_ok)
next
  fix r cs t e
  assume a: "find (\<lambda>r. id_col r = i) (ladon_policy d) = Some r \<and>
            Unmarshal col (conditions_col r) = Inr cs \<and>
            getLinked env (regex_imatch col) d t i = Inl e"
  show "\<exists>t' e'. getLinked env (regex_imatch col) d t' i = Inl e' \<and> Get env col d i = Inl e'"
  proof (cases "getLinked env (regex_imatch col) d ladon_policy_subject i")
    case (Inl e1)
    with a assms(1) have "Get env col d i = Inl e1" by (simp add: Get_def db_QueryRow_ok)
    with Inl show ?thesis by blast
  next
    case s: (Inr s)
    show ?thesis
    proof (cases "getLinked env (regex_imatch col) d ladon_policy_permission i")
      case (Inl e2)
      with a s assms(1) have "Get env col d i = Inl e2" by (simp add: Get_def db_QueryRow_ok)
      with Inl show ?thesis by blast
    next
      case pm: (Inr pm)
      show ?thesis
      proof (cases "getLinked env (regex_imatch col) d ladon_policy_resource i")
        case (Inl e3)
        with a s pm assms(1) have "Get env col d i = Inl e3" by (simp add: Get_def db_QueryRow_ok)
        with Inl show ?thesis by blast
      next
        case (Inr rs)
        with a s pm show ?thesis by (cases t) simp_all
      qed
    qed
  qed
next
  fix p
  assume "Get env col d i = Inr p \<and> (\<forall>t n. env (Next (SelectTemplates t i) n) = None)"
  then show "\<exists>r cs. find (\<lambda>r. id_col r = i) (ladon_policy d) = Some r \<and>
          Unmarshal col (conditions_col r) = Inr cs \<and> p = hydrated col d r cs"
    using Get_Inr by blast
qed

lemma compile_delete: "compile_template ''delete'' (CHR ''<'') (CHR ''>'') = Inr ''^delete$''"
  by code_simp

lemma example_db2_rows:
  "example_db2 =
     \<lparr>ladon_policy = [\<lparr>id_col = ''p1'', description_col = ''readers'', effect_col = ''allow'',
                        conditions_col = owner_blob\<rparr>,
                      \<lparr>id_col = ''g1'', description_col = ''everyone'', effect_col = ''deny'',
                        conditions_col = ''[]''\<rparr>],
      links = (\<lambda>t. [])
        (ladon_policy_subject := [\<lparr>compiled = ''^users:(.+)$'', template = ''users:<.+>'', policy = ''p1''\<rparr>],
         ladon_policy_permission := [\<lparr>compiled = ''^view$'', template = ''view'', policy = ''p1''\<rparr>,
                                     \<lparr>compiled = ''^delete$'', template = ''delete'', policy = ''g1''\<rparr>],
         ladon_policy_resource := [\<lparr>compiled = ''^articles:1$'', template = ''articles:1'', policy = ''p1''\<rparr>])\<rparr>"
  by (simp add: example_db2_def example_db_rows Create_def marshal_conditions_def global_policy_def
      std_collaborators_def compile_delete
      db_Begin_def tx_Exec_def tx_Commit_def no_faults_def fun_upd_twist)

subsection \<open>Get on a policy with an empty dimension\<close>

text \<open>
  Claim C10. For a stored policy row whose conditions decode, and a backend that answers the
  queries, \<open>Get\<close> succeeds whatever the number of link entries: the fetch of a dimension
  with no entry for the policy succeeds with the empty list (not \<open>ErrNotFound\<close>, not an
  error), and the record has the empty list for that dimension.
\<close>

theorem Get_with_empty_dimensions:
  assumes "env (QueryRow i) = None"
    and "\<forall>t. env (Query (SelectTemplates t i)) = None"
    and "\<forall>t n. env (Next (SelectTemplates t i) n) = None"
    and "\<forall>t n. env (Scan (SelectTemplates t i) n) = None"
    and "find (\<lambda>r. id_col r = i) (ladon_policy d) = Some r"
    and "Unmarshal col (conditions_col r) = Inr cs"
  shows "Get env col d i = Inr (hydrated col d r cs) \<and>
    (\<forall>t. i \<notin> set (map policy (links d t)) \<longrightarrow> getLinked env (regex_imatch col) d t i = Inr []) \<and>
    (i \<notin> set (map policy (links d ladon_policy_subject)) \<longrightarrow> Subjects (hydrated col d r cs) = []) \<and>
    (i \<notin> set (map policy (links d ladon_policy_permission)) \<longrightarrow> Permissions (hydrated col d r cs) = []) \<and>
    (i \<notin> set (map policy (links d ladon_policy_resource)) \<longrightarrow> Resources (hydrated col d r cs) = [])"
proof -
  have i: "id_col r = i" using assms(5) find_id_Some by blast
  have none: "i \<notin> set (map policy (links d t)) \<Longrightarrow> filter (\<lambda>x. policy x = i) (links d t) = []" for t
    by (auto simp: filter_empty_conv)
  have "Get env col d i = Inr (hydrated col d r cs)"
    using assms by (rule Get_ok)
  moreover have "\<forall>t. i \<notin> set (map policy (links d t)) \<longrightarrow> getLinked env (regex_imatch col) d t i = Inr []"
    using assms(2) none by (simp add: getLinked_find_ids find_ids_empty)
  ultimately show ?thesis using none by (simp add: hydrated_def i)
qed

lemma decode_empty: "json_Unmarshal ''[]'' = Inr (Some [])"
  by (simp add: json_Unmarshal_def)

theorem Get_with_empty_dimensions_witness:
  "no_faults (QueryRow ''g1'') = None \<and>
   (\<forall>t. no_faults (Query (SelectTemplates t ''g1'')) = None) \<and>
   (\<forall>t n. no_faults (Next (SelectTemplates t ''g1'') n) = None) \<and>
   (\<forall>t n. no_faults (Scan (SelectTemplates t ''g1'') n) = None) \<and>
   ''g1'' \<notin> set (map policy (links example_db2 ladon_policy_subject)) \<and>
   ''g1'' \<notin> set (map policy (links example_db2 ladon_policy_resource)) \<and>
   Get no_faults std_collaborators example_db2 ''g1'' =
     Inr \<lparr>ID = ''g1'', Description = ''everyone'', Effect = ''deny'', Conditions = Some [],
          Subjects = [], Permissions = [''delete''], Resources = []\<rparr>"
  using Get_with_empty_dimensions
    [where env = no_faults and i = "''g1''" and d = example_db2 and col = std_collaborators
       and cs = "Some []" and r = "\<lparr>id_col = ''g1'', description_col = ''everyone'', effect_col = ''deny'',
                        conditions_col = ''[]''\<rparr>"]
  by (simp add: no_faults_def example_db2_rows std_collaborators_def decode_empty hydrated_def)

subsection \<open>FindPoliciesForSubject with no match\<close>

text \<open>
  Claim C9. When the two queries are answered, no stored subject link entry matches the
  subject and no policy is without subject entries, \<open>FindPoliciesForSubject\<close> returns the
  empty list and no error.
\<close>

theorem no_match_is_empty_success:
  assumes "env (Query (SelectSubjectMatches s)) = None"
    and "env (Query SelectGlobals) = None"
    and "\<forall>r \<in> set (links d ladon_policy_subject). \<not> regex_imatch col s (''^'' @ compiled r @ ''$'')"
    and "\<forall>p \<in> set (ladon_policy d). id_col p \<in> set (map policy (links d ladon_policy_subject))"
  shows "FindPoliciesForSubject env col d s = Inr []"
proof -
  have "select_column (regex_imatch col) d (SelectSubjectMatches s) = []"
    using assms(3) by (simp add: filter_empty_conv)
  then have a: "find_ids env (regex_imatch col) d (SelectSubjectMatches s) = Inr []"
    using assms(1) by (rule find_ids_empty [rotated])
  have "select_column (regex_imatch col) d SelectGlobals = []"
    using assms(4) by (simp add: filter_empty_conv)
  then have b: "find_ids env (regex_imatch col) d SelectGlobals = Inr []"
    using assms(2) by (rule find_ids_empty [rotated])
  show ?thesis by (simp add: FindPoliciesForSubject_def a b)
qed

lemma groups_alice: "\<not> pg_imatch ''groups:alice'' (''^'' @ ''^users:(.+)$'' @ ''$'')"
  by code_simp

theorem no_match_is_empty_success_witness:
  "no_faults (Query (SelectSubjectMatches ''groups:alice'')) = None \<and>
   no_faults (Query SelectGlobals) = None \<and>
   \<not> regex_imatch std_collaborators ''groups:alice'' (''^'' @ ''^users:(.+)$'' @ ''$'') \<and>
   map id_col (ladon_policy example_db) = map policy (links example_db ladon_policy_subject) \<and>
   FindPoliciesForSubject no_faults std_collaborators example_db ''groups:alice'' = Inr []"
  using no_match_is_empty_success
    [where env = no_faults and s = "''groups:alice''" and d = example_db and col = std_collaborators]
    groups_alice
  by (simp add: no_faults_def example_db_rows std_collaborators_def)

subsection \<open>FindPoliciesForSubject\<close>

lemma decode_owner: "json_Unmarshal owner_blob = Inr (Some [''owner''])"
  by code_simp


lemma get_each_ids: "get_each env col d ids acc = Inr ps \<Longrightarrow> map ID ps = map ID acc @ ids"
proof (induction ids arbitrary: acc)
  case Nil
  then show ?case by simp
next
  case (Cons i ids)
  from Cons.prems obtain p where p: "Get env col d i = Inr p"
    by (cases "Get env col d i") auto
  with Cons.prems have "get_each env col d ids (acc @ [p]) = Inr ps" by simp
  from Cons.IH [OF this] have "map ID ps = map ID (acc @ [p]) @ ids" .
  with Get_ID [OF p] show ?case by simp
qed

lemma get_each_acc: "get_each env col d ids acc = Inr ps \<Longrightarrow> set acc \<subseteq> set ps"
proof (induction ids arbitrary: acc)
  case Nil
  then show ?case by simp
next
  case (Cons i ids)
  from Cons.prems obtain p where p: "Get env col d i = Inr p"
    by (cases "Get env col d i") auto
  with Cons.prems have "get_each env col d ids (acc @ [p]) = Inr ps" by simp
  from Cons.IH [OF this] show ?case by simp
qed

lemma get_each_mem:
  "get_each env col d ids acc = Inr ps \<Longrightarrow> i \<in> set ids \<Longrightarrow> \<exists>p \<in> set ps. Get env col d i = Inr p"
proof (induction ids arbitrary: acc)
  case Nil
  then show ?case by simp
next
  case (Cons j ids)
  from Cons.prems(1) obtain p where p: "Get env col d j = Inr p"
    by (cases "Get env col d j") auto
  with Cons.prems(1) have rest: "get_each env col d ids (acc @ [p]) = Inr ps" by simp
  show ?case
  proof (cases "i = j")
    case True
    from get_each_acc [OF rest] have "p \<in> set ps" by simp
    with p True show ?thesis by blast
  next
    case False
    with Cons.prems(2) have "i \<in> set ids" by simp
    from Cons.IH [OF rest this] show ?thesis .
  qed
qed

lemma get_each_ok:
  "\<forall>i \<in> set ids. \<exists>p. Get env col d i = Inr p \<Longrightarrow> \<exists>ps. get_each env col d ids acc = Inr ps"
proof (induction ids arbitrary: acc)
  case Nil
  then show ?case by simp
next
  case (Cons i ids)
  then obtain p where p: "Get env col d i = Inr p" by auto
  from Cons.prems have "\<forall>i \<in> set ids. \<exists>p. Get env col d i = Inr p" by simp
  from Cons.IH [OF this] obtain ps where "get_each env col d ids (acc @ [p]) = Inr ps" by blast
  with p show ?case by simp
qed

lemma Find_parts:
  assumes "FindPoliciesForSubject env col d s = Inr ps"
  shows "\<exists>a b. find_ids env (regex_imatch col) d (SelectSubjectMatches s) = Inr a \<and>
           find_ids env (regex_imatch col) d SelectGlobals = Inr b \<and>
           get_each env col d (a @ b) [] = Inr ps"
proof -
  from assms obtain a where a: "find_ids env (regex_imatch col) d (SelectSubjectMatches s) = Inr a"
    by (cases "find_ids env (regex_imatch col) d (SelectSubjectMatches s)")
       (auto simp: FindPoliciesForSubject_def)
  from assms a obtain b where b: "find_ids env (regex_imatch col) d SelectGlobals = Inr b"
    by (cases "find_ids env (regex_imatch col) d SelectGlobals")
       (auto simp: FindPoliciesForSubject_def)
  from assms a b have "get_each env col d (a @ b) [] = Inr ps"
    by (simp add: FindPoliciesForSubject_def)
  with a b show ?thesis by blast
qed

lemma Find_globals:
  assumes "FindPoliciesForSubject env col d s = Inr ps"
    and "\<forall>n. env (Next SelectGlobals n) = None"
  shows "set (select_column (regex_imatch col) d SelectGlobals) \<subseteq> set (map ID ps)"
proof -
  from Find_parts [OF assms(1)] obtain a b
    where b: "find_ids env (regex_imatch col) d SelectGlobals = Inr b"
      and g: "get_each env col d (a @ b) [] = Inr ps"
    by blast
  from find_ids_result [OF assms(2) b] have "b = select_column (regex_imatch col) d SelectGlobals" .
  moreover from get_each_ids [OF g] have "map ID ps = a @ b" by simp
  ultimately show ?thesis by simp
qed

lemma Find_Inr:
  assumes "FindPoliciesForSubject env col d s = Inr ps"
    and "\<forall>n. env (Next (SelectSubjectMatches s) n) = None"
    and "\<forall>n. env (Next SelectGlobals n) = None"
  shows "get_each env col d
           (select_column (regex_imatch col) d (SelectSubjectMatches s) @
            select_column (regex_imatch col) d SelectGlobals) [] = Inr ps"
proof -
  from Find_parts [OF assms(1)] obtain a b
    where a: "find_ids env (regex_imatch col) d (SelectSubjectMatches s) = Inr a"
      and b: "find_ids env (regex_imatch col) d SelectGlobals = Inr b"
      and g: "get_each env col d (a @ b) [] = Inr ps"
    by blast
  from find_ids_result [OF assms(2) a] find_ids_result [OF assms(3) b] g
  show ?thesis by simp
qed

lemma Find_ids:
  assumes "FindPoliciesForSubject env col d s = Inr ps"
    and "\<forall>n. env (Next (SelectSubjectMatches s) n) = None"
    and "\<forall>n. env (Next SelectGlobals n) = None"
  shows "map ID ps = select_column (regex_imatch col) d (SelectSubjectMatches s) @
               select_column (regex_imatch col) d SelectGlobals"
  using get_each_ids [OF Find_Inr [OF assms]] by simp

lemma Find_ok:
  assumes "\<forall>c. env c = None"
    and "\<forall>i \<in> set (select_column (regex_imatch col) d (SelectSubjectMatches s) @
                    select_column (regex_imatch col) d SelectGlobals).
           \<exists>p. Get env col d i = Inr p"
  shows "\<exists>ps. FindPoliciesForSubject env col d s = Inr ps"
proof -
  have "find_ids env (regex_imatch col) d q = Inr (select_column (regex_imatch col) d q)" for q
    using assms(1) by (simp add: find_ids_ok)
  then show ?thesis using get_each_ok [OF assms(2)]
    by (simp add: FindPoliciesForSubject_def)
qed

lemma find_distinct:
  "distinct (map id_col rows) \<Longrightarrow> r \<in> set rows \<Longrightarrow> find (\<lambda>x. id_col x = id_col r) rows = Some r"
  by (induction rows) (auto simp: image_iff)

lemma find_member:
  "i \<in> set (map id_col rows) \<Longrightarrow> \<exists>r. find (\<lambda>x. id_col x = i) rows = Some r"
  by (cases "find (\<lambda>x. id_col x = i) rows") (auto simp: find_None_iff)

lemma Get_stored:
  assumes "\<forall>c. env c = None"
    and "\<forall>r \<in> set (ladon_policy d). \<exists>cs. Unmarshal col (conditions_col r) = Inr cs"
    and "i \<in> set (map id_col (ladon_policy d))"
  shows "\<exists>p. Get env col d i = Inr p"
proof -
  from assms(3) obtain r where r: "find (\<lambda>x. id_col x = i) (ladon_policy d) = Some r"
    using find_member by blast
  then have "r \<in> set (ladon_policy d)" using find_id_Some by blast
  with assms(2) obtain cs where "Unmarshal col (conditions_col r) = Inr cs" by blast
  with r assms(1) have "Get env col d i = Inr (hydrated col d r cs)"
    by (intro Get_ok) simp_all
  then show ?thesis by blast
qed

lemma Find_total:
  assumes "\<forall>c. env c = None" and "wf_db d"
    and "\<forall>r \<in> set (ladon_policy d). \<exists>cs. Unmarshal col (conditions_col r) = Inr cs"
  shows "\<exists>ps. FindPoliciesForSubject env col d s = Inr ps"
proof (rule Find_ok [OF assms(1)], rule ballI)
  fix i
  assume "i \<in> set (select_column (regex_imatch col) d (SelectSubjectMatches s) @
                    select_column (regex_imatch col) d SelectGlobals)"
  then have "i \<in> set (map policy (links d ladon_policy_subject)) \<or> i \<in> set (map id_col (ladon_policy d))"
    by auto
  with assms(2) have "i \<in> set (map id_col (ladon_policy d))"
    by (auto simp: wf_db_def wf_links_def)
  with assms(1,3) show "\<exists>p. Get env col d i = Inr p" by (rule Get_stored)
qed

text \<open>
  Claim C3. A stored policy with no subject link entry is among the policies that
  \<open>FindPoliciesForSubject\<close> returns, for every subject: whenever the call returns a list,
  and the backend has delivered every row of the query for the policies without subjects,
  the policy's id is in it; and the call does return a list, with the policy's full record
  in it, when the backend answers every call, the tables satisfy the schema's constraints
  and the stored conditions decode.
\<close>

theorem global_policy_matches_every_subject:
  assumes "r \<in> set (ladon_policy d)"
    and "id_col r \<notin> set (map policy (links d ladon_policy_subject))"
    and "\<forall>n. env (Next SelectGlobals n) = None"
  shows "(\<forall>ps. FindPoliciesForSubject env col d s = Inr ps \<longrightarrow> id_col r \<in> set (map ID ps)) \<and>
    ((\<forall>c. env c = None) \<and> wf_db d \<and>
     (\<forall>x \<in> set (ladon_policy d). \<exists>cs. Unmarshal col (conditions_col x) = Inr cs) \<longrightarrow>
     (\<exists>ps cs. FindPoliciesForSubject env col d s = Inr ps \<and>
        Unmarshal col (conditions_col r) = Inr cs \<and> hydrated col d r cs \<in> set ps))"
proof (intro conjI allI impI)
  fix ps
  assume "FindPoliciesForSubject env col d s = Inr ps"
  from Find_globals [OF this assms(3)] assms(1,2) show "id_col r \<in> set (map ID ps)" by auto
next
  assume a: "(\<forall>c. env c = None) \<and> wf_db d \<and>
     (\<forall>x \<in> set (ladon_policy d). \<exists>cs. Unmarshal col (conditions_col x) = Inr cs)"
  then obtain ps where ps: "FindPoliciesForSubject env col d s = Inr ps"
    using Find_total [of env d col s] by blast
  from a assms(1) obtain cs where cs: "Unmarshal col (conditions_col r) = Inr cs" by blast
  from a have "distinct (map id_col (ladon_policy d))" by (simp add: wf_db_def)
  from find_distinct [OF this assms(1)]
  have f: "find (\<lambda>x. id_col x = id_col r) (ladon_policy d) = Some r" .
  have g: "Get env col d (id_col r) = Inr (hydrated col d r cs)"
    using a f cs by (intro Get_ok) simp_all
  from assms(1,2) have mem: "id_col r \<in> set (select_column (regex_imatch col) d (SelectSubjectMatches s) @
            select_column (regex_imatch col) d SelectGlobals)" by auto
  from a have q: "\<forall>n. env (Next (SelectSubjectMatches s) n) = None" by simp
  from get_each_mem [OF Find_Inr [OF ps q assms(3)] mem]
  obtain p where "p \<in> set ps" and "Get env col d (id_col r) = Inr p" by blast
  with g have "hydrated col d r cs \<in> set ps" by simp
  with ps cs show "\<exists>ps cs. FindPoliciesForSubject env col d s = Inr ps \<and>
        Unmarshal col (conditions_col r) = Inr cs \<and> hydrated col d r cs \<in> set ps" by blast
qed


lemma bob_users: "\<not> pg_imatch ''bob'' ''^^users:(.+)$$''"
  by code_simp

theorem global_policy_matches_every_subject_witness:
  "\<lparr>id_col = ''g1'', description_col = ''everyone'', effect_col = ''deny'', conditions_col = ''[]''\<rparr>
     \<in> set (ladon_policy example_db2) \<and>
   ''g1'' \<notin> set (map policy (links example_db2 ladon_policy_subject)) \<and>
   (\<forall>n. no_faults (Next SelectGlobals n) = None) \<and>
   (\<forall>c. no_faults c = None) \<and> wf_db example_db2 \<and>
   FindPoliciesForSubject no_faults std_collaborators example_db2 ''bob'' =
     Inr [\<lparr>ID = ''g1'', Description = ''everyone'', Effect = ''deny'', Conditions = Some [],
           Subjects = [], Permissions = [''delete''], Resources = []\<rparr>] \<and>
   ''g1'' \<in> set (map ID [\<lparr>ID = ''g1'', Description = ''everyone'', Effect = ''deny'',
           Conditions = Some ([] :: string list),
           Subjects = [], Permissions = [''delete''], Resources = []\<rparr>])"
  using global_policy_matches_every_subject
    [where env = no_faults and s = "''bob''" and d = example_db2 and col = std_collaborators
       and r = "\<lparr>id_col = ''g1'', description_col = ''everyone'', effect_col = ''deny'',
                 conditions_col = ''[]''\<rparr>"]
    bob_users
  by (simp add: no_faults_def example_db2_rows std_collaborators_def decode_empty
      wf_db_def wf_links_def FindPoliciesForSubject_def find_ids_def db_Query_def
      Get_def db_QueryRow_def getLinked_def)

lemma compile_alice: "compile_template ''<.+>:alice'' (CHR ''<'') (CHR ''>'') = Inr ''^(.+):alice$''"
  by code_simp

lemma wide_db_rows:
  "wide_db =
     \<lparr>ladon_policy = [\<lparr>id_col = ''w1'', description_col = ''members'', effect_col = ''allow'',
                        conditions_col = ''[]''\<rparr>],
      links = (\<lambda>t. [])
        (ladon_policy_subject := [\<lparr>compiled = ''^users:(.+)$'', template = ''users:<.+>'', policy = ''w1''\<rparr>,
                                  \<lparr>compiled = ''^(.+):alice$'', template = ''<.+>:alice'', policy = ''w1''\<rparr>],
         ladon_policy_permission := [\<lparr>compiled = ''^view$'', template = ''view'', policy = ''w1''\<rparr>],
         ladon_policy_resource := [\<lparr>compiled = ''^articles:1$'', template = ''articles:1'', policy = ''w1''\<rparr>])\<rparr>"
  by (simp add: wide_db_def Create_def marshal_conditions_def wide_policy_def
      std_collaborators_def compile_users compile_alice compile_view compile_articles
      db_Begin_def tx_Exec_def tx_Commit_def no_faults_def empty_db_def)

lemma alice_users: "pg_imatch ''users:alice'' ''^^users:(.+)$$''"
  by code_simp

lemma alice_alice: "pg_imatch ''users:alice'' ''^^(.+):alice$$''"
  by code_simp

lemma wide_db_find:
  "FindPoliciesForSubject no_faults std_collaborators wide_db ''users:alice'' =
     Inr [\<lparr>ID = ''w1'', Description = ''members'', Effect = ''allow'', Conditions = Some [],
           Subjects = [''users:<.+>'', ''<.+>:alice''], Permissions = [''view''],
           Resources = [''articles:1'']\<rparr>,
          \<lparr>ID = ''w1'', Description = ''members'', Effect = ''allow'', Conditions = Some [],
           Subjects = [''users:<.+>'', ''<.+>:alice''], Permissions = [''view''],
           Resources = [''articles:1'']\<rparr>]"
  using alice_users alice_alice
  by (simp add: no_faults_def wide_db_rows std_collaborators_def decode_empty
      FindPoliciesForSubject_def find_ids_def db_Query_def
      Get_def db_QueryRow_def getLinked_def)

text \<open>
  Claim C5, as stated, fails: the store adds no \<open>DISTINCT\<close> and removes no duplicate, and
  the subject query returns one row for every matching link entry, not for every policy. A
  policy created with two subject templates that both match the subject is returned twice.
\<close>

theorem same_policy_returned_twice:
  "wf_db wide_db \<and>
   (\<exists>ps. FindPoliciesForSubject no_faults std_collaborators wide_db ''users:alice'' = Inr ps \<and>
         map ID ps = [''w1'', ''w1''] \<and> \<not> distinct (map ID ps))"
  by (simp add: wide_db_find) (simp add: wide_db_rows wf_db_def wf_links_def)

lemma count_list_append: "count_list (xs @ ys) i = count_list xs i + count_list ys i"
  by (induction xs) auto

lemma count_matches:
  "count_list (map policy (filter P rows)) i = length (filter (\<lambda>r. policy r = i \<and> P r) rows)"
  by (induction rows) auto

lemma count_distinct:
  "distinct (map f xs) \<Longrightarrow>
   count_list (map f (filter (\<lambda>x. g (f x)) xs)) i = (if i \<in> set (map f xs) \<and> g i then 1 else 0)"
  by (induction xs) (auto simp: image_iff)

text \<open>
  Claim C5, amended. On tables that satisfy the schema's constraints, and when the backend
  delivers every row of the two queries, the list that \<open>FindPoliciesForSubject\<close> returns
  holds a policy id once if the policy has no subject link entry, and otherwise once for
  each of its subject link entries whose anchored pattern matches the subject. So no id
  comes from both clauses of the union, and an id is repeated exactly when two subject
  entries of one policy match.
\<close>

theorem one_entry_per_matching_template:
  assumes "wf_db d" and "FindPoliciesForSubject env col d s = Inr ps"
    and "\<forall>n. env (Next (SelectSubjectMatches s) n) = None"
    and "\<forall>n. env (Next SelectGlobals n) = None"
  shows "count_list (map ID ps) i =
    (if i \<in> set (map id_col (ladon_policy d)) \<and>
        i \<notin> set (map policy (links d ladon_policy_subject)) then 1
     else length (filter (\<lambda>r. policy r = i \<and> regex_imatch col s (''^'' @ compiled r @ ''$''))
                    (links d ladon_policy_subject)))"
proof -
  let ?subj = "links d ladon_policy_subject"
  let ?m = "\<lambda>r. regex_imatch col s (''^'' @ compiled r @ ''$'')"
  have ids: "map ID ps = map policy (filter ?m ?subj) @
      map id_col (filter (\<lambda>p. id_col p \<notin> set (map policy ?subj)) (ladon_policy d))"
    using Find_ids [OF assms(2,3,4)] by simp
  have dist: "distinct (map id_col (ladon_policy d))"
    using assms(1) by (simp add: wf_db_def)
  have fk: "set (map policy ?subj) \<subseteq> set (map id_col (ladon_policy d))"
    using assms(1) by (simp add: wf_db_def wf_links_def)
  have g: "count_list (map id_col (filter (\<lambda>p. id_col p \<notin> set (map policy ?subj)) (ladon_policy d))) i =
      (if i \<in> set (map id_col (ladon_policy d)) \<and> i \<notin> set (map policy ?subj) then 1 else 0)"
    using count_distinct [OF dist, of "\<lambda>x. x \<notin> set (map policy ?subj)" i] by simp
  have m: "count_list (map policy (filter ?m ?subj)) i = length (filter (\<lambda>r. policy r = i \<and> ?m r) ?subj)"
    by (rule count_matches)
  have z: "i \<notin> set (map policy ?subj) \<Longrightarrow> filter (\<lambda>r. policy r = i \<and> ?m r) ?subj = []"
    by (auto simp: filter_empty_conv)
  show ?thesis
    unfolding ids count_list_append g m using z by auto
qed

theorem one_entry_per_matching_template_witness:
  "wf_db wide_db \<and>
   (\<forall>n. no_faults (Next (SelectSubjectMatches ''users:alice'') n) = None) \<and>
   (\<forall>n. no_faults (Next SelectGlobals n) = None) \<and>
   FindPoliciesForSubject no_faults std_collaborators wide_db ''users:alice'' =
     Inr [\<lparr>ID = ''w1'', Description = ''members'', Effect = ''allow'', Conditions = Some [],
           Subjects = [''users:<.+>'', ''<.+>:alice''], Permissions = [''view''],
           Resources = [''articles:1'']\<rparr>,
          \<lparr>ID = ''w1'', Description = ''members'', Effect = ''allow'', Conditions = Some [],
           Subjects = [''users:<.+>'', ''<.+>:alice''], Permissions = [''view''],
           Resources = [''articles:1'']\<rparr>] \<and>
   length (filter (\<lambda>r. policy r = ''w1'' \<and>
                       regex_imatch std_collaborators ''users:alice'' (''^'' @ compiled r @ ''$''))
             (links wide_db ladon_policy_subject)) = 2"
  using one_entry_per_matching_template
    [where env = no_faults and s = "''users:alice''" and d = wide_db and col = std_collaborators
       and i = "''w1''", OF _ wide_db_find]
    alice_users alice_alice
  by (simp add: wide_db_find)
     (simp add: wide_db_rows wf_db_def wf_links_def std_collaborators_def no_faults_def)

subsection \<open>Get when the reading of a dimension breaks off\<close>

text \<open>
  Claim C8. The part on a failing fetch does not hold of the code: \<open>getLinked\<close> leaves
  the loop when \<open>rows.Next\<close> returns false and returns the templates read so far with a
  nil error, without a call of \<open>rows.Err\<close>. The policy \<open>w1\<close> is stored with the subject
  templates \<open>users:<.+>\<close> and \<open><.+>:alice\<close>; when the connection is lost after the first
  row of the subject query, \<open>Get\<close> returns no error but a record with the first template
  only.
\<close>

theorem lost_rows_give_partial_record:
  "select_column (regex_imatch std_collaborators) wide_db (SelectTemplates ladon_policy_subject ''w1'') =
     [''users:<.+>'', ''<.+>:alice''] \<and>
   lost_connection (QueryRow ''w1'') = None \<and>
   lost_connection (Query (SelectTemplates ladon_policy_subject ''w1'')) = None \<and>
   lost_connection (Next (SelectTemplates ladon_policy_subject ''w1'') 1) =
     Some (BackendError ''connection lost'') \<and>
   Get lost_connection std_collaborators wide_db ''w1'' =
     Inr \<lparr>ID = ''w1'', Description = ''members'', Effect = ''allow'', Conditions = Some [],
          Subjects = [''users:<.+>''], Permissions = [''view''], Resources = [''articles:1'']\<rparr>"
  by (simp add: lost_connection_def no_faults_def wide_db_rows std_collaborators_def decode_empty
      Get_def db_QueryRow_def getLinked_def db_Query_def)


subsection \<open>The subject match\<close>

text \<open>
  The pattern that the compiler returns for a template is a sequence of atoms between \<open>^\<close>
  and \<open>$\<close>: the literal text is escaped and every fragment is a group, so that a \<open>|\<close> of
  a fragment stays inside its group. Between the anchors that the query adds, the search of
  the database for such a pattern is a match of the whole subject.
\<close>

lemma parse_from_steps:
  "parse_from cs ps =
     (case parse_steps cs ps of
        None \<Rightarrow> None
      | Some (m, st) \<Rightarrow> (case st of [f] \<Rightarrow> if m = Normal then Some (close_frame f) else None | _ \<Rightarrow> None))"
proof (induction cs arbitrary: ps)
  case Nil
  show ?case by (cases ps) simp
next
  case (Cons c cs)
  show ?case by (cases "parse_step c ps") (simp_all add: Cons.IH)
qed

lemma parse_steps_append:
  "parse_steps (xs @ ys) ps =
     (case parse_steps xs ps of None \<Rightarrow> None | Some ps' \<Rightarrow> parse_steps ys ps')"
  by (induction xs arbitrary: ps) (auto split: option.splits)

lemma parse_step_lift:
  assumes "parse_step c (m, fs) = Some (m', fs')"
  shows "parse_step c (m, fs @ rest) = Some (m', fs' @ rest)"
proof (cases fs)
  case Nil
  with assms show ?thesis by simp
next
  case (Cons f st)
  show ?thesis
  proof (cases m)
    case Normal
    with assms Cons show ?thesis
      by (auto simp: push_atom_def quantify_def split: if_splits list.splits)
  next
    case Escape
    with assms Cons show ?thesis
      by (auto simp: push_atom_def split: if_splits)
  next
    case (Class body)
    with assms Cons show ?thesis
      by (auto simp: push_atom_def split: if_splits)
  qed
qed

lemma parse_steps_lift:
  "parse_steps cs (m, fs) = Some (m', fs') \<Longrightarrow>
   parse_steps cs (m, fs @ rest) = Some (m', fs' @ rest)"
proof (induction cs arbitrary: m fs)
  case Nil
  then show ?case by simp
next
  case (Cons c cs)
  from Cons.prems obtain m1 fs1 where s: "parse_step c (m, fs) = Some (m1, fs1)"
    by (cases "parse_step c (m, fs)") auto
  with Cons.prems have "parse_steps cs (m1, fs1) = Some (m', fs')" by simp
  from Cons.IH [OF this] parse_step_lift [OF s, of rest] show ?case by simp
qed


lemma sequence_of_Nil: "sequence_of [] []"
  by (simp add: sequence_of_def)

lemma sequence_of_append:
  "sequence_of p as \<Longrightarrow> sequence_of q bs \<Longrightarrow> sequence_of (p @ q) (as @ bs)"
  by (simp add: sequence_of_def parse_steps_append)

lemma sequence_of_Bol: "sequence_of ''^'' [Bol]"
  by (simp add: sequence_of_def push_atom_def backslash_def)

lemma sequence_of_Eol: "sequence_of ''$'' [Eol]"
  by (simp add: sequence_of_def push_atom_def backslash_def)

lemma sequence_of_group:
  assumes "parse_rx buf = Some r"
  shows "sequence_of (''('' @ buf @ '')'') [r]"
proof -
  from assms obtain g where g: "parse_steps buf (Normal, [([], [])]) = Some (Normal, [g])"
    and r: "r = close_frame g"
    by (auto simp: parse_rx_def parse_from_steps split: option.splits list.splits if_splits)
  have "parse_steps (''('' @ buf @ '')'') (Normal, f # st) = Some (Normal, (fst f, snd f @ [r]) # st)"
    for f st
  proof -
    from parse_steps_lift [OF g, of "f # st"]
    have "parse_steps buf (Normal, ([], []) # f # st) = Some (Normal, g # f # st)" by simp
    then show ?thesis
      by (simp add: parse_steps_append backslash_def push_atom_def r)
  qed
  then show ?thesis by (simp add: sequence_of_def)
qed

lemma QuoteMeta_Cons:
  "QuoteMeta (c # s) = (if (c = backslash \<or> c \<in> set ''.+*?()|[]{}^$'') then [backslash, c] else [c]) @ QuoteMeta s"
  by (simp add: QuoteMeta_def)

lemma sequence_of_quoted_char:
  "sequence_of (if (c = backslash \<or> c \<in> set ''.+*?()|[]{}^$'') then [backslash, c] else [c]) [Lit c]"
  by (auto simp: sequence_of_def push_atom_def backslash_def)

lemma sequence_of_QuoteMeta: "sequence_of (QuoteMeta s) (map Lit s)"
proof (induction s)
  case Nil
  show ?case by (simp add: QuoteMeta_def sequence_of_Nil)
next
  case (Cons c s)
  from sequence_of_append [OF sequence_of_quoted_char [of c] Cons]
  show ?case by (simp add: QuoteMeta_Cons)
qed

lemma compile_scan_sequence:
  "compile_scan st en tpl inside buf out = Inr body \<Longrightarrow> sequence_of out as \<Longrightarrow>
   \<exists>bs. sequence_of body bs"
proof (induction tpl arbitrary: inside buf out as)
  case Nil
  then have "body = out @ QuoteMeta buf" by (simp split: if_splits)
  with sequence_of_append [OF Nil.prems(2) sequence_of_QuoteMeta [of buf]]
  show ?case by blast
next
  case (Cons c cs)
  show ?case
  proof (cases inside)
    case True
    show ?thesis
    proof (cases "c = en")
      case en: True
      with True Cons.prems(1) obtain r where r: "parse_rx buf = Some r"
        and rest: "compile_scan st en cs False [] (out @ ''('' @ buf @ '')'') = Inr body"
        by (cases "parse_rx buf") auto
      from sequence_of_append [OF Cons.prems(2) sequence_of_group [OF r]]
      have "sequence_of (out @ ''('' @ buf @ '')'') (as @ [r])" by simp
      from Cons.IH [OF rest this] show ?thesis .
    next
      case False
      with True Cons.prems(1) have "compile_scan st en cs True (buf @ [c]) out = Inr body" by simp
      from Cons.IH [OF this Cons.prems(2)] show ?thesis .
    qed
  next
    case False
    show ?thesis
    proof (cases "c = st")
      case True
      with False Cons.prems(1) have rest: "compile_scan st en cs True [] (out @ QuoteMeta buf) = Inr body"
        by simp
      from Cons.IH [OF rest sequence_of_append [OF Cons.prems(2) sequence_of_QuoteMeta [of buf]]]
      show ?thesis .
    next
      case nst: False
      with False Cons.prems(1) have "compile_scan st en cs False (buf @ [c]) out = Inr body"
        by (simp split: if_splits)
      from Cons.IH [OF this Cons.prems(2)] show ?thesis .
    qed
  qed
qed

lemma compile_template_sequence:
  assumes "compile_template tpl st en = Inr pat"
  shows "\<exists>as. sequence_of pat (Bol # as @ [Eol])"
proof -
  from assms obtain body where b: "compile_scan st en tpl False [] [] = Inr body"
    and c: "pat = ''^'' @ body @ ''$''"
    by (cases "compile_scan st en tpl False [] []") (auto simp: compile_template_def)
  from compile_scan_sequence [OF b sequence_of_Nil] obtain bs where "sequence_of body bs" by blast
  from sequence_of_append [OF sequence_of_Bol sequence_of_append [OF this sequence_of_Eol]]
  have "sequence_of pat (Bol # bs @ [Eol])" by (simp add: c)
  then show ?thesis by blast
qed

lemma parse_sequence: "sequence_of p as \<Longrightarrow> parse_rx p = Some (foldr Cat as Eps)"
  by (simp add: sequence_of_def parse_rx_def parse_from_steps close_frame_def)

lemma run_tail: "run ic (foldr Cat as r) cs = run ic r (run ic (foldr Cat as Eps) cs)"
  by (induction as arbitrary: cs) simp_all

lemma Bol_start: "filter (\<lambda>(b, s). b) ((True, s) # map (Pair False) ts) = [(True, s)]"
  by (induction ts) simp_all

lemma anchored_search:
  "rx_search ic (foldr Cat (Bol # Bol # as @ [Eol, Eol]) Eps) s =
   whole ic (foldr Cat (Bol # as @ [Eol]) Eps) s"
proof -
  have one: "run ic (foldr Cat as (Cat Eol Eps)) cs =
             filter (\<lambda>(b, t). t = []) (run ic (foldr Cat as Eps) cs)" for cs
    using run_tail [of ic as "Cat Eol Eps" cs] by simp
  have two: "run ic (foldr Cat as (Cat Eol (Cat Eol Eps))) cs =
             filter (\<lambda>(b, t). t = []) (run ic (foldr Cat as Eps) cs)" for cs
    using run_tail [of ic as "Cat Eol (Cat Eol Eps)" cs] by simp
  show ?thesis
    by (simp add: rx_search_def whole_def Bol_start one two list_ex_iff filter_empty_conv) force
qed

lemma compiled_match:
  assumes "compile_template tpl st en = Inr pat"
  shows "pg_imatch s (''^'' @ pat @ ''$'') = matches_whole True pat s"
    and "pg_match s (''^'' @ pat @ ''$'') = matches_whole False pat s"
proof -
  from compile_template_sequence [OF assms] obtain as
    where as: "sequence_of pat (Bol # as @ [Eol])" by blast
  from sequence_of_append [OF sequence_of_Bol sequence_of_append [OF as sequence_of_Eol]]
  have "sequence_of (''^'' @ pat @ ''$'') (Bol # Bol # as @ [Eol, Eol])" by simp
  from parse_sequence [OF this] parse_sequence [OF as]
  show "pg_imatch s (''^'' @ pat @ ''$'') = matches_whole True pat s"
    and "pg_match s (''^'' @ pat @ ''$'') = matches_whole False pat s"
    by (simp_all add: pg_imatch_def pg_match_def matches_whole_def anchored_search
        del: foldr.simps foldr_append)
qed

text \<open>
  A template without delimiters is literal text: its compiled pattern, between the anchors
  of the query, is matched by the subjects that are the template up to the case of the
  letters, and without the flag by the template alone.
\<close>

lemma eat_single:
  "eat ok [(b, s)] = (case s of [] \<Rightarrow> [] | c # t \<Rightarrow> if ok c then [(False, t)] else [])"
  by (simp add: eat_def split: list.splits)

lemma run_Nil: "run ic r [] = []"
proof (induction r)
  case (Star r)
  have "iter n (run ic r) [] = []" for n
    by (induction n) (simp_all add: Star)
  then show ?case by (simp add: longest_def)
qed (simp_all add: eat_def)

lemma run_literal:
  "(b', u) \<in> set (run ic (foldr Cat (map Lit t) Eps) [(b, s)]) \<longleftrightarrow>
   (\<exists>p. s = p @ u \<and> list_all2 (same_char ic) t p \<and> b' = (b \<and> t = []))"
proof (induction t arbitrary: b s)
  case Nil
  show ?case by auto
next
  case (Cons a t)
  show ?case
  proof (cases s)
    case Nil
    then show ?thesis by (simp add: eat_single run_Nil list_all2_Cons1)
  next
    case (Cons c r)
    show ?thesis
    proof (cases "same_char ic a c")
      case True
      with Cons Cons.IH [of False r] show ?thesis
        by (auto simp: eat_single list_all2_Cons1 Cons_eq_append_conv)
    next
      case False
      with Cons show ?thesis
        by (auto simp: eat_single run_Nil list_all2_Cons1 Cons_eq_append_conv)
    qed
  qed
qed

lemma whole_anchored:
  "whole ic (foldr Cat (Bol # as @ [Eol]) Eps) s = whole ic (foldr Cat as Eps) s"
proof -
  have "run ic (foldr Cat as (Cat Eol Eps)) cs =
        filter (\<lambda>(b, t). t = []) (run ic (foldr Cat as Eps) cs)" for cs
    using run_tail [of ic as "Cat Eol Eps" cs] by simp
  then show ?thesis by (simp add: whole_def list_ex_iff) force
qed

lemma whole_literal:
  "whole ic (foldr Cat (map Lit t) Eps) s = list_all2 (same_char ic) t s"
proof -
  have "whole ic (foldr Cat (map Lit t) Eps) s =
        (\<exists>b'. (b', []) \<in> set (run ic (foldr Cat (map Lit t) Eps) [(True, s)]))"
    by (simp add: whole_def list_ex_iff) force
  then show ?thesis by (simp add: run_literal)
qed

lemma same_char_exact: "list_all2 (same_char False) t s = (s = t)"
  by (auto simp: same_char_def list_all2_conv_all_nth list_eq_iff_nth_eq)

lemma same_char_fold: "list_all2 (same_char True) t s = (map lower s = map lower t)"
  by (auto simp: same_char_def list_all2_conv_all_nth list_eq_iff_nth_eq)

lemma compile_scan_literal:
  "st \<notin> set tpl \<Longrightarrow> en \<notin> set tpl \<Longrightarrow>
   compile_scan st en tpl False buf out = Inr (out @ QuoteMeta (buf @ tpl))"
  by (induction tpl arbitrary: buf) auto

lemma literal_template:
  assumes "st \<notin> set tpl" and "en \<notin> set tpl"
  shows "compile_template tpl st en = Inr (''^'' @ QuoteMeta tpl @ ''$'') \<and>
    pg_imatch s (''^'' @ (''^'' @ QuoteMeta tpl @ ''$'') @ ''$'') = (map lower s = map lower tpl) \<and>
    pg_match s (''^'' @ (''^'' @ QuoteMeta tpl @ ''$'') @ ''$'') = (s = tpl)"
proof -
  have c: "compile_template tpl st en = Inr (''^'' @ QuoteMeta tpl @ ''$'')"
    using compile_scan_literal [OF assms, of "[]" "[]"] by (simp add: compile_template_def)
  from sequence_of_append [OF sequence_of_Bol sequence_of_append [OF sequence_of_QuoteMeta [of tpl] sequence_of_Eol]]
  have q: "sequence_of (''^'' @ QuoteMeta tpl @ ''$'') (Bol # map Lit tpl @ [Eol])" by simp
  from sequence_of_append [OF sequence_of_Bol sequence_of_append [OF q sequence_of_Eol]]
  have "sequence_of (''^'' @ (''^'' @ QuoteMeta tpl @ ''$'') @ ''$'') (Bol # Bol # map Lit tpl @ [Eol, Eol])"
    by simp
  from parse_sequence [OF this]
  have "pg_imatch s (''^'' @ (''^'' @ QuoteMeta tpl @ ''$'') @ ''$'') = list_all2 (same_char True) tpl s"
    and "pg_match s (''^'' @ (''^'' @ QuoteMeta tpl @ ''$'') @ ''$'') = list_all2 (same_char False) tpl s"
    by (simp_all add: pg_imatch_def pg_match_def anchored_search whole_anchored whole_literal
        del: foldr.simps foldr_append)
  with c show ?thesis by (simp only: same_char_exact same_char_fold)
qed

text \<open>The matcher reads the subject from left to right: what is left is an end of what was there.\<close>

lemma eat_suffix:
  "(b', t) \<in> set (eat ok cs) \<Longrightarrow> \<exists>b s c. (b, s) \<in> set cs \<and> s = c # t"
  by (auto simp: eat_def split: list.splits if_splits)

lemma iter_suffix:
  assumes "\<And>cs b' t. (b', t) \<in> set (f cs) \<Longrightarrow> \<exists>b s p. (b, s) \<in> set cs \<and> s = p @ t"
  shows "(b', t) \<in> set (iter n f cs) \<Longrightarrow> \<exists>b s p. (b, s) \<in> set cs \<and> s = p @ t"
proof (induction n arbitrary: cs b' t)
  case 0
  then show ?case by auto
next
  case (Suc n)
  from Suc.prems consider "(b', t) \<in> set cs" | "(b', t) \<in> set (iter n f (remdups (f cs)))"
    by auto
  then show ?case
  proof cases
    case 1
    then show ?thesis by auto
  next
    case 2
    from Suc.IH [OF this] obtain b1 s1 p1 where "(b1, s1) \<in> set (f cs)" and s1: "s1 = p1 @ t"
      by auto
    from assms [OF this(1)] obtain b s p where "(b, s) \<in> set cs" and "s = p @ s1" by blast
    with s1 have "(b, s) \<in> set cs \<and> s = (p @ p1) @ t" by simp
    then show ?thesis by blast
  qed
qed

lemma run_suffix:
  "(b', t) \<in> set (run ic r cs) \<Longrightarrow> \<exists>b s p. (b, s) \<in> set cs \<and> s = p @ t"
proof (induction r arbitrary: cs b' t)
  case Eps
  then show ?case by auto
next
  case (Lit a)
  from eat_suffix [of b' t "same_char ic a" cs] Lit show ?case by (metis append_Cons append_Nil run.simps(2))
next
  case Dot
  from eat_suffix [of b' t "\<lambda>c. True" cs] Dot show ?case by (metis append_Cons append_Nil run.simps(3))
next
  case (Cls neg rs)
  from eat_suffix [of b' t _ cs] Cls show ?case by (metis append_Cons append_Nil run.simps(4))
next
  case Bol
  then show ?case by auto
next
  case Eol
  then show ?case by auto
next
  case (Cat r1 r2)
  from Cat.prems have "(b', t) \<in> set (run ic r2 (run ic r1 cs))" by simp
  from Cat.IH(2) [OF this] obtain b1 s1 p1 where m: "(b1, s1) \<in> set (run ic r1 cs)" and s1: "s1 = p1 @ t"
    by blast
  from Cat.IH(1) [OF m] obtain b s p where "(b, s) \<in> set cs" and "s = p @ s1" by blast
  with s1 have "(b, s) \<in> set cs \<and> s = (p @ p1) @ t" by simp
  then show ?case by blast
next
  case (Alt r1 r2)
  then show ?case by auto
next
  case (Star r)
  from Star.prems have "(b', t) \<in> set (iter (Suc (longest cs)) (run ic r) cs)" by simp
  from iter_suffix [of "run ic r", OF Star.IH this] show ?case .
qed

lemma compile_digits: "compile_template ''<[0-9]+>'' (CHR ''<'') (CHR ''>'') = Inr ''^([0-9]+)$''"
  by code_simp

lemma digits_db_rows:
  "digits_db =
     \<lparr>ladon_policy = [\<lparr>id_col = ''d1'', description_col = ''numbered'', effect_col = ''allow'',
                        conditions_col = ''[]''\<rparr>],
      links = (\<lambda>t. [])
        (ladon_policy_subject := [\<lparr>compiled = ''^([0-9]+)$'', template = ''<[0-9]+>'', policy = ''d1''\<rparr>],
         ladon_policy_permission := [\<lparr>compiled = ''^view$'', template = ''view'', policy = ''d1''\<rparr>],
         ladon_policy_resource := [\<lparr>compiled = ''^articles:1$'', template = ''articles:1'', policy = ''d1''\<rparr>])\<rparr>"
  by (simp add: digits_db_def Create_def marshal_conditions_def digits_policy_def
      std_collaborators_def compile_digits compile_view compile_articles
      db_Begin_def tx_Exec_def tx_Commit_def no_faults_def empty_db_def)

lemma digits_123: "pg_imatch ''123'' ''^^([0-9]+)$$''"
  by code_simp

lemma digits_abc: "\<not> pg_imatch ''abc'' ''^^([0-9]+)$$''"
  by code_simp

lemma digits_a123: "\<not> pg_imatch ''a123'' ''^^([0-9]+)$$''"
  by code_simp

lemma digits_123b: "\<not> pg_imatch ''123b'' ''^^([0-9]+)$$''"
  by code_simp

lemma digits_inside: "pg_imatch ''a123'' ''([0-9]+)'' \<and> pg_imatch ''123b'' ''([0-9]+)''"
  by code_simp

lemma digits_find_123:
  "FindPoliciesForSubject no_faults std_collaborators digits_db ''123'' =
     Inr [\<lparr>ID = ''d1'', Description = ''numbered'', Effect = ''allow'', Conditions = Some [],
           Subjects = [''<[0-9]+>''], Permissions = [''view''], Resources = [''articles:1'']\<rparr>]"
  using digits_123
  by (simp add: no_faults_def digits_db_rows std_collaborators_def decode_empty
      FindPoliciesForSubject_def find_ids_def db_Query_def
      Get_def db_QueryRow_def getLinked_def)

lemma digits_find_abc:
  "FindPoliciesForSubject no_faults std_collaborators digits_db ''abc'' = Inr []"
  using digits_abc
  by (simp add: no_faults_def digits_db_rows std_collaborators_def
      FindPoliciesForSubject_def find_ids_def db_Query_def)

lemma digits_find_a123:
  "FindPoliciesForSubject no_faults std_collaborators digits_db ''a123'' = Inr []"
  using digits_a123
  by (simp add: no_faults_def digits_db_rows std_collaborators_def
      FindPoliciesForSubject_def find_ids_def db_Query_def)

lemma digits_find_123b:
  "FindPoliciesForSubject no_faults std_collaborators digits_db ''123b'' = Inr []"
  using digits_123b
  by (simp add: no_faults_def digits_db_rows std_collaborators_def
      FindPoliciesForSubject_def find_ids_def db_Query_def)

lemma Find_members:
  assumes "FindPoliciesForSubject env col d s = Inr ps"
    and "\<forall>n. env (Next (SelectSubjectMatches s) n) = None"
    and "\<forall>n. env (Next SelectGlobals n) = None"
  shows "(i \<in> set (map ID ps)) =
      ((\<exists>r \<in> set (links d ladon_policy_subject).
           policy r = i \<and> regex_imatch col s (''^'' @ compiled r @ ''$'')) \<or>
       (i \<in> set (map id_col (ladon_policy d)) \<and>
        i \<notin> set (map policy (links d ladon_policy_subject))))"
  using Find_ids [OF assms] by auto

lemma upper_users: "pg_imatch ''USERS:alice'' ''^^users:(.+)$$''"
  by code_simp

lemma upper_users_exact: "\<not> pg_match ''USERS:alice'' ''^^users:(.+)$$''"
  by code_simp

lemma upper_users_whole: "\<not> matches_whole False ''^users:(.+)$'' ''USERS:alice''"
  by code_simp

lemma example_db_upper:
  "FindPoliciesForSubject no_faults std_collaborators example_db ''USERS:alice'' =
     Inr [\<lparr>ID = ''p1'', Description = ''readers'', Effect = ''allow'', Conditions = Some [''owner''],
           Subjects = [''users:<.+>''], Permissions = [''view''], Resources = [''articles:1'']\<rparr>]"
  using upper_users
  by (simp add: no_faults_def example_db_rows std_collaborators_def decode_owner
      FindPoliciesForSubject_def find_ids_def db_Query_def
      Get_def db_QueryRow_def getLinked_def)

text \<open>
  Claim C4, as stated, fails: the query matches with \<open>~*\<close>, which compares letters
  without regard to case, so a policy is also returned for a subject that its compiled
  pattern does not match. The policy \<open>p1\<close> has the subject template \<open>users:<.+>\<close>, stored
  as \<open>^users:(.+)$\<close>; the pattern does not match \<open>USERS:alice\<close>, neither as a search
  between the anchors nor as a match of the whole subject, and \<open>FindPoliciesForSubject\<close>
  returns the policy for that subject.
\<close>

theorem subject_match_ignores_case:
  "links example_db ladon_policy_subject =
     [\<lparr>compiled = ''^users:(.+)$'', template = ''users:<.+>'', policy = ''p1''\<rparr>] \<and>
   \<not> pg_match ''USERS:alice'' (''^'' @ ''^users:(.+)$'' @ ''$'') \<and>
   \<not> matches_whole False ''^users:(.+)$'' ''USERS:alice'' \<and>
   FindPoliciesForSubject no_faults std_collaborators example_db ''USERS:alice'' =
     Inr [\<lparr>ID = ''p1'', Description = ''readers'', Effect = ''allow'', Conditions = Some [''owner''],
           Subjects = [''users:<.+>''], Permissions = [''view''], Resources = [''articles:1'']\<rparr>]"
  using upper_users_exact upper_users_whole
  by (simp add: example_db_upper) (simp add: example_db_rows)

lemma digits_whole:
  "matches_whole True ''^([0-9]+)$'' ''123'' \<and> \<not> matches_whole True ''^([0-9]+)$'' ''abc'' \<and>
   \<not> matches_whole True ''^([0-9]+)$'' ''a123'' \<and> \<not> matches_whole True ''^([0-9]+)$'' ''123b''"
  using compiled_match(1) [OF compile_digits] digits_123 digits_abc digits_a123 digits_123b
  by simp

text \<open>
  Claim C4, amended. The subject match is a match of the whole subject in which the case of
  the letters does not count. When the subject entries hold patterns that the template
  compiler returned, as the entries that \<open>Create\<close> writes do, and the backend delivers
  every row of the two queries, \<open>FindPoliciesForSubject\<close> returns a policy with subject
  entries exactly when the compiled pattern of one of its entries matches the subject from
  its first to its last character, letters compared without regard to case (the other
  policies returned are those with no subject entry). A pattern that matches a part of the
  subject only does not count: for the policy whose only subject template is
  \<open><[0-9]+>\<close>, compiled with the delimiters \<open><\<close> and \<open>>\<close>, the subject \<open>123\<close> finds
  it, \<open>abc\<close> does not, and neither do \<open>a123\<close> and \<open>123b\<close>, in which the fragment is
  found but does not cover the subject.
\<close>

theorem subject_match_covers_whole_subject:
  assumes "\<forall>row \<in> set (links d ladon_policy_subject).
             \<exists>st en. compile_template (template row) st en = Inr (compiled row)"
    and "FindPoliciesForSubject env std_collaborators d s = Inr ps"
    and "\<forall>n. env (Next (SelectSubjectMatches s) n) = None"
    and "\<forall>n. env (Next SelectGlobals n) = None"
  shows "((i \<in> set (map ID ps)) =
      ((\<exists>row \<in> set (links d ladon_policy_subject).
           policy row = i \<and> matches_whole True (compiled row) s) \<or>
       (i \<in> set (map id_col (ladon_policy d)) \<and>
        i \<notin> set (map policy (links d ladon_policy_subject))))) \<and>
   links digits_db ladon_policy_subject =
     [\<lparr>compiled = ''^([0-9]+)$'', template = ''<[0-9]+>'', policy = ''d1''\<rparr>] \<and>
   (\<exists>ps. FindPoliciesForSubject no_faults std_collaborators digits_db ''123'' = Inr ps \<and>
         map ID ps = [''d1'']) \<and>
   FindPoliciesForSubject no_faults std_collaborators digits_db ''abc'' = Inr [] \<and>
   pg_imatch ''a123'' ''([0-9]+)'' \<and> \<not> matches_whole True ''^([0-9]+)$'' ''a123'' \<and>
   FindPoliciesForSubject no_faults std_collaborators digits_db ''a123'' = Inr [] \<and>
   pg_imatch ''123b'' ''([0-9]+)'' \<and> \<not> matches_whole True ''^([0-9]+)$'' ''123b'' \<and>
   FindPoliciesForSubject no_faults std_collaborators digits_db ''123b'' = Inr []"
proof -
  have m: "pg_imatch s (''^'' @ compiled row @ ''$'') = matches_whole True (compiled row) s"
    if "row \<in> set (links d ladon_policy_subject)" for row
  proof -
    from assms(1) that obtain st en where "compile_template (template row) st en = Inr (compiled row)"
      by blast
    then show ?thesis by (rule compiled_match(1))
  qed
  have "regex_imatch std_collaborators = pg_imatch" by (simp add: std_collaborators_def)
  with Find_members [OF assms(2,3,4), of i]
  have "(i \<in> set (map ID ps)) =
      ((\<exists>row \<in> set (links d ladon_policy_subject).
           policy row = i \<and> pg_imatch s (''^'' @ compiled row @ ''$'')) \<or>
       (i \<in> set (map id_col (ladon_policy d)) \<and>
        i \<notin> set (map policy (links d ladon_policy_subject))))"
    by simp
  also have "(\<exists>row \<in> set (links d ladon_policy_subject).
           policy row = i \<and> pg_imatch s (''^'' @ compiled row @ ''$'')) =
      (\<exists>row \<in> set (links d ladon_policy_subject).
           policy row = i \<and> matches_whole True (compiled row) s)"
    using m by blast
  finally have general: "(i \<in> set (map ID ps)) =
      ((\<exists>row \<in> set (links d ladon_policy_subject).
           policy row = i \<and> matches_whole True (compiled row) s) \<or>
       (i \<in> set (map id_col (ladon_policy d)) \<and>
        i \<notin> set (map policy (links d ladon_policy_subject))))" .
  have "links digits_db ladon_policy_subject =
     [\<lparr>compiled = ''^([0-9]+)$'', template = ''<[0-9]+>'', policy = ''d1''\<rparr>]"
    by (simp add: digits_db_rows)
  with general digits_inside digits_whole show ?thesis
    by (simp add: digits_find_123 digits_find_abc digits_find_a123 digits_find_123b)
qed

lemma example_db2_compiled:
  "\<forall>row \<in> set (links example_db2 ladon_policy_subject).
     \<exists>st en. compile_template (template row) st en = Inr (compiled row)"
  using compile_users by (auto simp: example_db2_rows)

lemma example_db2_alice:
  "FindPoliciesForSubject no_faults std_collaborators example_db2 ''users:alice'' =
     Inr [\<lparr>ID = ''p1'', Description = ''readers'', Effect = ''allow'', Conditions = Some [''owner''],
           Subjects = [''users:<.+>''], Permissions = [''view''], Resources = [''articles:1'']\<rparr>,
          \<lparr>ID = ''g1'', Description = ''everyone'', Effect = ''deny'', Conditions = Some [],
           Subjects = [], Permissions = [''delete''], Resources = []\<rparr>]"
  using alice_users
  by (simp add: no_faults_def example_db2_rows std_collaborators_def decode_empty decode_owner
      FindPoliciesForSubject_def find_ids_def db_Query_def
      Get_def db_QueryRow_def getLinked_def)

theorem subject_match_covers_whole_subject_witness:
  "compile_template ''users:<.+>'' (CHR ''<'') (CHR ''>'') = Inr ''^users:(.+)$'' \<and>
   links example_db2 ladon_policy_subject =
     [\<lparr>compiled = ''^users:(.+)$'', template = ''users:<.+>'', policy = ''p1''\<rparr>] \<and>
   (\<forall>n. no_faults (Next (SelectSubjectMatches ''users:alice'') n) = None) \<and>
   (\<forall>n. no_faults (Next SelectGlobals n) = None) \<and>
   FindPoliciesForSubject no_faults std_collaborators example_db2 ''users:alice'' =
     Inr [\<lparr>ID = ''p1'', Description = ''readers'', Effect = ''allow'', Conditions = Some [''owner''],
           Subjects = [''users:<.+>''], Permissions = [''view''], Resources = [''articles:1'']\<rparr>,
          \<lparr>ID = ''g1'', Description = ''everyone'', Effect = ''deny'', Conditions = Some [],
           Subjects = [], Permissions = [''delete''], Resources = []\<rparr>] \<and>
   matches_whole True ''^users:(.+)$'' ''users:alice''"
  using subject_match_covers_whole_subject
    [where env = no_faults and s = "''users:alice''" and d = example_db2 and i = "''p1''",
       OF example_db2_compiled example_db2_alice]
    compile_users
  by (simp add: example_db2_alice) (simp add: no_faults_def example_db2_rows)

subsection \<open>Create\<close>

lemma ladon_policy_add_links [simp]: "ladon_policy (add_links tx t rs) = ladon_policy tx"
  by (simp add: add_links_def)

lemma links_add_links [simp]:
  "links (add_links tx t rs) t' = (if t' = t then links tx t @ rs else links tx t')"
  by (simp add: add_links_def)

lemma add_links_Nil [simp]: "add_links tx t [] = tx"
  by (simp add: add_links_def)

lemma add_links_Cons: "add_links (add_links tx t [r]) t rs = add_links tx t (r # rs)"
  by (intro database.equality) (auto simp: add_links_def fun_eq_iff)

lemma exec_InsertLink_Inr:
  "exec_stmt tx (InsertLink t r) = Inr tx' \<Longrightarrow>
   tx' = add_links tx t [r]"
  by (auto simp: add_links_def split: if_splits)

lemma exec_InsertPolicy_Inr:
  "exec_stmt tx (InsertPolicy r) = Inr tx' \<Longrightarrow>
   tx' = tx\<lparr>ladon_policy := ladon_policy tx @ [r]\<rparr> \<and>
   id_col r \<notin> set (map id_col (ladon_policy tx)) \<and>
   (effect_col r = ''allow'' \<or> effect_col r = ''deny'')"
  by (auto split: if_splits)

lemma tx_Exec_Inr:
  "tx_Exec env tx s = Inr tx' \<Longrightarrow> env (TxExec s) = None \<and> exec_stmt tx s = Inr tx'"
  by (auto simp: tx_Exec_def split: option.splits)

lemma createLink_step:
  assumes "createLink env col tx t p (tpl # ts) = (Return None, tx')"
  shows "\<exists>reg. CompileRegex col tpl (GetStartDelimiter p) (GetEndDelimiter p) = Inr reg \<and>
     env (TxExec (InsertLink t (link_entry col p tpl))) = None \<and>
     createLink env col (add_links tx t [link_entry col p tpl]) t p ts
       = (Return None, tx')"
proof -
  from assms obtain reg where reg: "CompileRegex col tpl (GetStartDelimiter p) (GetEndDelimiter p) = Inr reg"
    by (cases "CompileRegex col tpl (GetStartDelimiter p) (GetEndDelimiter p)") auto
  then have row: "link_entry col p tpl = \<lparr>compiled = reg, template = tpl, policy = GetID p\<rparr>"
    by (simp add: link_entry_def)
  from assms reg obtain tx1 where tx1: "tx_Exec env tx (InsertLink t (link_entry col p tpl)) = Inr tx1"
    by (cases "tx_Exec env tx (InsertLink t (link_entry col p tpl))")
       (auto simp: row split: option.splits)
  with assms reg row have rest: "createLink env col tx1 t p ts = (Return None, tx')" by simp
  from tx_Exec_Inr [OF tx1] exec_InsertLink_Inr
  have "env (TxExec (InsertLink t (link_entry col p tpl))) = None"
    and "tx1 = add_links tx t [link_entry col p tpl]"
    by blast+
  with reg rest show ?thesis by simp
qed

lemma createLink_success:
  "createLink env col tx t p ts = (Return None, tx') \<Longrightarrow>
   tx' = add_links tx t (map (link_entry col p) ts) \<and>
   (\<forall>tpl \<in> set ts.
      (\<exists>reg. CompileRegex col tpl (GetStartDelimiter p) (GetEndDelimiter p) = Inr reg) \<and>
      env (TxExec (InsertLink t (link_entry col p tpl))) = None)"
proof (induction ts arbitrary: tx)
  case Nil
  then show ?case by simp
next
  case (Cons tpl ts)
  from createLink_step [OF Cons.prems] obtain reg where
    reg: "CompileRegex col tpl (GetStartDelimiter p) (GetEndDelimiter p) = Inr reg"
    and env: "env (TxExec (InsertLink t (link_entry col p tpl))) = None"
    and rest: "createLink env col (add_links tx t [link_entry col p tpl]) t p ts
       = (Return None, tx')"
    by blast
  from Cons.IH [OF rest] reg env show ?case by (simp add: add_links_Cons)
qed


lemma createLink_ok:
  assumes "\<forall>tpl \<in> set ts. \<exists>reg. CompileRegex col tpl (GetStartDelimiter p) (GetEndDelimiter p) = Inr reg"
    and "\<forall>tpl \<in> set ts. env (TxExec (InsertLink t (link_entry col p tpl))) = None"
    and "GetID p \<in> set (map id_col (ladon_policy tx))"
    and "distinct ts"
    and "\<forall>tpl \<in> set ts. (tpl, GetID p) \<notin> set (map (\<lambda>x. (template x, policy x)) (links tx t))"
  shows "createLink env col tx t p ts =
    (Return None, add_links tx t (map (link_entry col p) ts))"
  using assms
proof (induction ts arbitrary: tx)
  case Nil
  then show ?case by simp
next
  case (Cons tpl ts)
  from Cons.prems(1) obtain reg where
    reg: "CompileRegex col tpl (GetStartDelimiter p) (GetEndDelimiter p) = Inr reg" by auto
  then have row: "link_entry col p tpl = \<lparr>compiled = reg, template = tpl, policy = GetID p\<rparr>"
    by (simp add: link_entry_def)
  let ?tx1 = "add_links tx t [link_entry col p tpl]"
  have ex: "tx_Exec env tx (InsertLink t (link_entry col p tpl)) = Inr ?tx1"
    using Cons.prems(2,3,5) by (simp add: tx_Exec_def row add_links_def)
  have fresh: "\<forall>x \<in> set ts. (x, GetID p) \<notin> set (map (\<lambda>x. (template x, policy x)) (links ?tx1 t))"
    using Cons.prems(4,5) by (auto simp: row)
  have "createLink env col ?tx1 t p ts =
    (Return None, add_links ?tx1 t (map (link_entry col p) ts))"
    using Cons.prems fresh by (intro Cons.IH) simp_all
  with reg ex row show ?case by (simp add: add_links_Cons)
qed


lemma ladon_policy_created: "ladon_policy (created col p blob d) = ladon_policy d @ [policy_entry p blob]"
  by (simp add: created_def)

lemma links_created:
  "links (created col p blob d) t = links d t @ map (link_entry col p) (templates_of p t)"
  by (cases t) (simp_all add: created_def templates_of_def)

lemma Create_unchanged: "fst (Create env col d p) \<noteq> Return None \<Longrightarrow> snd (Create env col d p) = d"
  by (auto simp: Create_def split: sum.splits prod.splits go.splits option.splits)

lemma Create_success:
  assumes "Create env col d p = (Return None, d')"
  shows "\<exists>blob. marshal_conditions col p = Inr blob \<and> env Begin = None \<and>
     env (TxExec (InsertPolicy (policy_entry p blob))) = None \<and>
     GetID p \<notin> set (map id_col (ladon_policy d)) \<and>
     (GetEffect p = ''allow'' \<or> GetEffect p = ''deny'') \<and>
     (\<forall>t. \<forall>tpl \<in> set (templates_of p t).
        (\<exists>reg. CompileRegex col tpl (GetStartDelimiter p) (GetEndDelimiter p) = Inr reg) \<and>
        env (TxExec (InsertLink t (link_entry col p tpl))) = None) \<and>
     env Commit = None \<and> d' = created col p blob d"
proof -
  from assms obtain blob where blob: "marshal_conditions col p = Inr blob"
    by (cases "marshal_conditions col p") (auto simp: Create_def)
  from assms blob have beg: "env Begin = None"
    by (cases "env Begin") (auto simp: Create_def db_Begin_def)
  then have tx: "db_Begin env d = Inr d" by (simp add: db_Begin_def)
  from assms blob tx obtain tx1 where
    tx1: "tx_Exec env d (InsertPolicy (policy_entry p blob)) = Inr tx1"
    by (cases "tx_Exec env d (InsertPolicy (policy_entry p blob))")
       (auto simp: Create_def policy_entry_def)
  from tx_Exec_Inr [OF tx1] exec_InsertPolicy_Inr
  have ins: "env (TxExec (InsertPolicy (policy_entry p blob))) = None"
    and tx1_eq: "tx1 = d\<lparr>ladon_policy := ladon_policy d @ [policy_entry p blob]\<rparr>"
    and fresh: "GetID p \<notin> set (map id_col (ladon_policy d))"
    and eff: "GetEffect p = ''allow'' \<or> GetEffect p = ''deny''"
    by (fastforce simp: policy_entry_def)+
  note start = blob tx tx1 [unfolded policy_entry_def]
  from assms start obtain tx2 where
    s: "createLink env col tx1 ladon_policy_subject p (GetSubjects p) = (Return None, tx2)"
    by (cases "createLink env col tx1 ladon_policy_subject p (GetSubjects p)")
       (auto simp: Create_def split: go.splits option.splits)
  from assms start s obtain tx3 where
    pm: "createLink env col tx2 ladon_policy_permission p (GetPermissions p) = (Return None, tx3)"
    by (cases "createLink env col tx2 ladon_policy_permission p (GetPermissions p)")
       (auto simp: Create_def split: go.splits option.splits)
  from assms start s pm obtain tx4 where
    rs: "createLink env col tx3 ladon_policy_resource p (GetResources p) = (Return None, tx4)"
    by (cases "createLink env col tx3 ladon_policy_resource p (GetResources p)")
       (auto simp: Create_def split: go.splits option.splits)
  from assms start s pm rs have com: "env Commit = None" and d': "d' = tx4"
    by (auto simp: Create_def tx_Commit_def split: option.splits)
  from createLink_success [OF s] createLink_success [OF pm] createLink_success [OF rs]
  have "tx4 = created col p blob d"
    and "\<forall>t. \<forall>tpl \<in> set (templates_of p t).
        (\<exists>reg. CompileRegex col tpl (GetStartDelimiter p) (GetEndDelimiter p) = Inr reg) \<and>
        env (TxExec (InsertLink t (link_entry col p tpl))) = None"
    unfolding created_def tx1_eq templates_of_def
    by (simp, metis (mono_tags, lifting) link_table.case link_table.exhaust)
  with blob beg ins fresh eff com d' show ?thesis by blast
qed

lemma Create_ok:
  assumes "marshal_conditions col p = Inr blob"
    and "env Begin = None" and "env Commit = None"
    and "env (TxExec (InsertPolicy (policy_entry p blob))) = None"
    and "\<forall>t. \<forall>tpl \<in> set (templates_of p t).
           env (TxExec (InsertLink t (link_entry col p tpl))) = None"
    and "\<forall>t. \<forall>tpl \<in> set (templates_of p t).
           \<exists>reg. CompileRegex col tpl (GetStartDelimiter p) (GetEndDelimiter p) = Inr reg"
    and "\<forall>t. distinct (templates_of p t)"
    and "GetID p \<notin> set (map id_col (ladon_policy d))"
    and "GetEffect p = ''allow'' \<or> GetEffect p = ''deny''"
    and "\<forall>t. GetID p \<notin> set (map policy (links d t))"
  shows "Create env col d p = (Return None, created col p blob d)"
proof -
  let ?tx1 = "d\<lparr>ladon_policy := ladon_policy d @ [policy_entry p blob]\<rparr>"
  let ?tx2 = "add_links ?tx1 ladon_policy_subject (map (link_entry col p) (GetSubjects p))"
  let ?tx3 = "add_links ?tx2 ladon_policy_permission (map (link_entry col p) (GetPermissions p))"
  have tx: "db_Begin env d = Inr d" using assms(2) by (simp add: db_Begin_def)
  have tx1: "tx_Exec env d (InsertPolicy (policy_entry p blob)) = Inr ?tx1"
    using assms(4,8,9) by (auto simp: tx_Exec_def policy_entry_def)
  have absent: "(tpl, GetID p) \<notin> set (map (\<lambda>x. (template x, policy x)) (links d t))" for tpl t
    using assms(10) by (auto simp: image_iff)
  have tpls: "templates_of p ladon_policy_subject = GetSubjects p"
    "templates_of p ladon_policy_permission = GetPermissions p"
    "templates_of p ladon_policy_resource = GetResources p"
    by (simp_all add: templates_of_def)
  have comp: "\<forall>tpl \<in> set (templates_of p t).
      \<exists>reg. CompileRegex col tpl (GetStartDelimiter p) (GetEndDelimiter p) = Inr reg" for t
    using assms(6) by blast
  have quiet: "\<forall>tpl \<in> set (templates_of p t).
      env (TxExec (InsertLink t (link_entry col p tpl))) = None" for t
    using assms(5) by blast
  have dist: "distinct (templates_of p t)" for t
    using assms(7) by blast
  have s: "createLink env col ?tx1 ladon_policy_subject p (GetSubjects p) = (Return None, ?tx2)"
    using comp [of ladon_policy_subject] quiet [of ladon_policy_subject]
      dist [of ladon_policy_subject] absent
    unfolding tpls by (intro createLink_ok) (simp_all add: policy_entry_def)
  have pm: "createLink env col ?tx2 ladon_policy_permission p (GetPermissions p) = (Return None, ?tx3)"
    using comp [of ladon_policy_permission] quiet [of ladon_policy_permission]
      dist [of ladon_policy_permission] absent
    unfolding tpls by (intro createLink_ok) (simp_all add: policy_entry_def)
  have rs: "createLink env col ?tx3 ladon_policy_resource p (GetResources p) =
      (Return None, created col p blob d)"
    unfolding created_def
    using comp [of ladon_policy_resource] quiet [of ladon_policy_resource]
      dist [of ladon_policy_resource] absent
    unfolding tpls by (intro createLink_ok) (simp_all add: policy_entry_def)
  show ?thesis
    using assms(1,3) tx tx1 s pm rs
    by (simp add: Create_def tx_Commit_def policy_entry_def)
qed


lemma Get_absent:
  "env (QueryRow i) = None \<Longrightarrow> i \<notin> set (map id_col (ladon_policy d)) \<Longrightarrow>
   Get env col d i = Inl ErrNotFound"
  using find_id_None [of i "ladon_policy d"] by (simp add: Get_def db_QueryRow_ok)

text \<open>
  Claim C1. \<open>Create\<close> is all or nothing. When it does not return nil (it returns an error
  or panics), the database that readers see is the one before the call; so for an id that
  was not stored, a following \<open>Get\<close> whose row lookup the backend answers returns
  \<open>ErrNotFound\<close>. When it returns nil, no stage has failed (the serialization, the begin, the
  insert of the policy row, the compilation and the insert of every link entry, the commit),
  and the policy row and the link entries of the three dimensions are there together.
\<close>

theorem Create_all_or_nothing:
  "(fst (Create env col d p) \<noteq> Return None \<longrightarrow>
      snd (Create env col d p) = d \<and>
      (GetID p \<notin> set (map id_col (ladon_policy d)) \<and>
       env' (QueryRow (GetID p)) = None \<longrightarrow>
       Get env' col (snd (Create env col d p)) (GetID p) = Inl ErrNotFound)) \<and>
   (fst (Create env col d p) = Return None \<longrightarrow>
      (\<exists>blob. marshal_conditions col p = Inr blob \<and>
         env (TxExec (InsertPolicy (policy_entry p blob))) = None \<and>
         ladon_policy (snd (Create env col d p)) = ladon_policy d @ [policy_entry p blob]) \<and>
      (\<forall>t. links (snd (Create env col d p)) t =
            links d t @ map (link_entry col p) (templates_of p t)) \<and>
      (\<forall>t. \<forall>tpl \<in> set (templates_of p t).
         (\<exists>reg. CompileRegex col tpl (GetStartDelimiter p) (GetEndDelimiter p) = Inr reg) \<and>
         env (TxExec (InsertLink t (link_entry col p tpl))) = None) \<and>
      env Begin = None \<and> env Commit = None)"
proof (intro conjI impI)
  assume "fst (Create env col d p) \<noteq> Return None"
  then show "snd (Create env col d p) = d" by (rule Create_unchanged)
next
  assume "fst (Create env col d p) \<noteq> Return None"
    and "GetID p \<notin> set (map id_col (ladon_policy d)) \<and>
       env' (QueryRow (GetID p)) = None"
  then show "Get env' col (snd (Create env col d p)) (GetID p) = Inl ErrNotFound"
    by (simp add: Create_unchanged Get_absent)
next
  assume "fst (Create env col d p) = Return None"
  then have c: "Create env col d p = (Return None, snd (Create env col d p))"
    by (simp add: prod_eq_iff)
  from Create_success [OF c] obtain blob where
    b: "marshal_conditions col p = Inr blob" "env Begin = None"
      "env (TxExec (InsertPolicy (policy_entry p blob))) = None"
      "\<forall>t. \<forall>tpl \<in> set (templates_of p t).
         (\<exists>reg. CompileRegex col tpl (GetStartDelimiter p) (GetEndDelimiter p) = Inr reg) \<and>
         env (TxExec (InsertLink t (link_entry col p tpl))) = None"
      "env Commit = None" "snd (Create env col d p) = created col p blob d"
    by blast
  from b show "\<exists>blob. marshal_conditions col p = Inr blob \<and>
         env (TxExec (InsertPolicy (policy_entry p blob))) = None \<and>
         ladon_policy (snd (Create env col d p)) = ladon_policy d @ [policy_entry p blob]"
    by (simp add: ladon_policy_created)
  from b show "\<forall>t. links (snd (Create env col d p)) t =
            links d t @ map (link_entry col p) (templates_of p t)"
    by (simp add: links_created)
  from b show "\<forall>t. \<forall>tpl \<in> set (templates_of p t).
         (\<exists>reg. CompileRegex col tpl (GetStartDelimiter p) (GetEndDelimiter p) = Inr reg) \<and>
         env (TxExec (InsertLink t (link_entry col p tpl))) = None" by blast
  from b show "env Begin = None" and "env Commit = None" by blast+
qed

lemma Create_resource_fault:
  "Create resource_fault std_collaborators empty_db example_policy =
     (Return (Some (BackendError ''insert refused'')), empty_db)"
  by (simp add: Create_def marshal_conditions_def example_policy_def
      std_collaborators_def marshal_owner compile_users compile_view compile_articles
      db_Begin_def tx_Exec_def tx_Commit_def tx_Rollback_def resource_fault_def no_faults_def
      empty_db_def)

lemma Create_example:
  "Create no_faults std_collaborators empty_db example_policy = (Return None, example_db)"
  by (simp add: example_db_rows)
     (simp add: Create_def marshal_conditions_def example_policy_def
      std_collaborators_def marshal_owner compile_users compile_view compile_articles
      db_Begin_def tx_Exec_def tx_Commit_def no_faults_def empty_db_def)

theorem Create_all_or_nothing_witness:
  "fst (Create resource_fault std_collaborators empty_db example_policy) =
     Return (Some (BackendError ''insert refused'')) \<and>
   snd (Create resource_fault std_collaborators empty_db example_policy) = empty_db \<and>
   Get no_faults std_collaborators
     (snd (Create resource_fault std_collaborators empty_db example_policy)) ''p1'' =
     Inl ErrNotFound \<and>
   fst (Create no_faults std_collaborators empty_db example_policy) = Return None \<and>
   ladon_policy (snd (Create no_faults std_collaborators empty_db example_policy)) =
     [\<lparr>id_col = ''p1'', description_col = ''readers'', effect_col = ''allow'',
       conditions_col = owner_blob\<rparr>] \<and>
   links (snd (Create no_faults std_collaborators empty_db example_policy)) ladon_policy_subject =
     [\<lparr>compiled = ''^users:(.+)$'', template = ''users:<.+>'', policy = ''p1''\<rparr>] \<and>
   links (snd (Create no_faults std_collaborators empty_db example_policy)) ladon_policy_permission =
     [\<lparr>compiled = ''^view$'', template = ''view'', policy = ''p1''\<rparr>] \<and>
   links (snd (Create no_faults std_collaborators empty_db example_policy)) ladon_policy_resource =
     [\<lparr>compiled = ''^articles:1$'', template = ''articles:1'', policy = ''p1''\<rparr>]"
proof -
  let ?bad = "Create resource_fault std_collaborators empty_db example_policy"
  let ?good = "Create no_faults std_collaborators empty_db example_policy"
  have bad: "fst ?bad = Return (Some (BackendError ''insert refused''))"
    by (simp add: Create_resource_fault)
  have fresh: "GetID example_policy \<notin> set (map id_col (ladon_policy empty_db)) \<and>
      no_faults (QueryRow (GetID example_policy)) = None"
    by (simp add: empty_db_def no_faults_def)
  have ne: "fst ?bad \<noteq> Return None" using bad by simp
  from ne fresh
    Create_all_or_nothing
      [where env = resource_fault and env' = no_faults and col = std_collaborators
         and d = empty_db and p = example_policy]
  have u: "snd ?bad = empty_db"
    and g: "Get no_faults std_collaborators (snd ?bad) (GetID example_policy) = Inl ErrNotFound"
    by blast+
  have id1: "GetID example_policy = ''p1''" by (simp add: example_policy_def)
  have 1: "snd ?bad = empty_db"
    "Get no_faults std_collaborators (snd ?bad) ''p1'' = Inl ErrNotFound"
    using u g by (simp_all add: id1)
  have good: "fst ?good = Return None" by (simp add: Create_example)
  with Create_all_or_nothing
      [where env = no_faults and col = std_collaborators and d = empty_db and p = example_policy]
  have "\<forall>t. links (snd ?good) t =
      links empty_db t @ map (link_entry std_collaborators example_policy) (templates_of example_policy t)"
    by blast
  then have 2: "links (snd ?good) ladon_policy_subject =
      [\<lparr>compiled = ''^users:(.+)$'', template = ''users:<.+>'', policy = ''p1''\<rparr>]"
    "links (snd ?good) ladon_policy_permission =
      [\<lparr>compiled = ''^view$'', template = ''view'', policy = ''p1''\<rparr>]"
    "links (snd ?good) ladon_policy_resource =
      [\<lparr>compiled = ''^articles:1$'', template = ''articles:1'', policy = ''p1''\<rparr>]"
    by (simp_all add: empty_db_def link_entry_def templates_of_def example_policy_def
        std_collaborators_def compile_users compile_view compile_articles)
  have 3: "ladon_policy (snd ?good) =
     [\<lparr>id_col = ''p1'', description_col = ''readers'', effect_col = ''allow'',
       conditions_col = owner_blob\<rparr>]"
    by (simp add: Create_example example_db_rows)
  from bad 1 good 2 3 show ?thesis by simp
qed







lemma compile_unterminated:
  "compile_template ''users:<unterminated'' (CHR ''<'') (CHR ''>'') =
     Inl (CompileError ''unbalanced delimiters'')"
  by code_simp

text \<open>
  Claim C6: the code does otherwise. For the template \<open>users:<unterminated\<close> the compilation
  fails; \<open>createLink\<close> drops the error and dereferences the nil pattern, so \<open>Create\<close>
  panics and returns no error. Nothing is committed.
\<close>

theorem compile_error_panics:
  "CompileRegex std_collaborators ''users:<unterminated'' (CHR ''<'') (CHR ''>'') =
     Inl (CompileError ''unbalanced delimiters'') \<and>
   Create no_faults std_collaborators empty_db unterminated_policy = (Panic, empty_db)"
  by (simp add: Create_def marshal_conditions_def unterminated_policy_def
      std_collaborators_def compile_unterminated
      db_Begin_def tx_Exec_def no_faults_def empty_db_def)

subsection \<open>Create followed by Get\<close>

lemma find_append_fresh:
  "i \<notin> set (map id_col rows) \<Longrightarrow> id_col r = i \<Longrightarrow> find (\<lambda>x. id_col x = i) (rows @ [r]) = Some r"
  by (induction rows) auto

lemma filter_policy_absent:
  "i \<notin> set (map policy rows) \<Longrightarrow> filter (\<lambda>r. policy r = i) rows = []"
  by (auto simp: filter_empty_conv)

lemma templates_of_entries:
  "map template (filter (\<lambda>r. policy r = GetID p) (map (link_entry col p) ts)) = ts"
  by (induction ts) (simp_all add: link_entry_def)

lemma templates_created:
  assumes "GetID p \<notin> set (map policy (links d t))"
  shows "map template (filter (\<lambda>r. policy r = GetID p) (links (created col p blob d) t)) =
     templates_of p t"
  using assms by (simp add: links_created filter_policy_absent templates_of_entries)

text \<open>
  Claim C2. Let the backend answer every call, the tables satisfy the schema's constraints,
  and the policy be valid: its id is not stored yet, its effect is \<open>allow\<close> or \<open>deny\<close>,
  its templates compile and no template is repeated within a dimension, and its conditions
  survive \<open>encoding/json\<close>. Then \<open>Create\<close> returns nil and \<open>Get\<close> of the id returns a
  record with the same id, description and effect, the same conditions (as a collection: a
  nil slice is stored as \<open>[]\<close> and read back as the empty slice) and, in each dimension,
  the same set of templates. That the three sets are not empty is not needed.
\<close>

theorem Create_Get_round_trip:
  assumes "\<forall>c. env c = None" and "\<forall>c. env' c = None"
    and "wf_db d"
    and "GetID p \<notin> set (map id_col (ladon_policy d))"
    and "GetEffect p = ''allow'' \<or> GetEffect p = ''deny''"
    and "\<forall>tpl \<in> set (GetSubjects p @ GetPermissions p @ GetResources p).
           \<exists>reg. CompileRegex col tpl (GetStartDelimiter p) (GetEndDelimiter p) = Inr reg"
    and "distinct (GetSubjects p)" and "distinct (GetPermissions p)" and "distinct (GetResources p)"
    and "marshal_conditions col p = Inr blob"
    and "Unmarshal col blob = Inr cs"
    and "elems cs = elems (GetConditions p)"
  shows "\<exists>d' q. Create env col d p = (Return None, d') \<and>
     Get env' col d' (GetID p) = Inr q \<and>
     ID q = GetID p \<and> Description q = GetDescription p \<and> Effect q = GetEffect p \<and>
     elems (Conditions q) = elems (GetConditions p) \<and>
     set (Subjects q) = set (GetSubjects p) \<and>
     set (Permissions q) = set (GetPermissions p) \<and>
     set (Resources q) = set (GetResources p)"
proof -
  let ?d' = "created col p blob d"
  let ?row = "policy_entry p blob"
  have absent: "GetID p \<notin> set (map policy (links d t))" for t
    using assms(3,4) by (cases t) (auto simp: wf_db_def wf_links_def)
  have comp: "\<forall>t. \<forall>tpl \<in> set (templates_of p t).
      \<exists>reg. CompileRegex col tpl (GetStartDelimiter p) (GetEndDelimiter p) = Inr reg"
  proof
    fix t show "\<forall>tpl \<in> set (templates_of p t).
      \<exists>reg. CompileRegex col tpl (GetStartDelimiter p) (GetEndDelimiter p) = Inr reg"
      using assms(6) by (cases t) (simp_all add: templates_of_def)
  qed
  have dist: "\<forall>t. distinct (templates_of p t)"
  proof
    fix t show "distinct (templates_of p t)"
      using assms(7-9) by (cases t) (simp_all add: templates_of_def)
  qed
  have c: "Create env col d p = (Return None, ?d')"
    using assms(10) assms(1) comp dist assms(4,5) absent
    by (intro Create_ok) simp_all
  have f: "find (\<lambda>r. id_col r = GetID p) (ladon_policy ?d') = Some ?row"
    using assms(4) by (simp add: ladon_policy_created find_append_fresh policy_entry_def)
  have u: "Unmarshal col (conditions_col ?row) = Inr cs"
    using assms(11) by (simp add: policy_entry_def)
  have g: "Get env' col ?d' (GetID p) = Inr (hydrated col ?d' ?row cs)"
    using assms(2) f u by (intro Get_ok) simp_all
  have i: "id_col ?row = GetID p" by (simp add: policy_entry_def)
  have fields: "ID (hydrated col ?d' ?row cs) = GetID p"
    "Description (hydrated col ?d' ?row cs) = GetDescription p"
    "Effect (hydrated col ?d' ?row cs) = GetEffect p"
    "Conditions (hydrated col ?d' ?row cs) = cs"
    by (simp_all add: hydrated_def policy_entry_def)
  have tpls: "Subjects (hydrated col ?d' ?row cs) = GetSubjects p"
    "Permissions (hydrated col ?d' ?row cs) = GetPermissions p"
    "Resources (hydrated col ?d' ?row cs) = GetResources p"
    unfolding hydrated_def i
    by (simp_all add: templates_created [OF absent] templates_of_def)
  from c g fields tpls assms(12) show ?thesis by simp
qed

theorem Create_Get_round_trip_witness:
  "(\<forall>c. no_faults c = None) \<and> wf_db empty_db \<and>
   GetID example_policy \<notin> set (map id_col (ladon_policy empty_db)) \<and>
   GetEffect example_policy = ''allow'' \<and>
   distinct (GetSubjects example_policy) \<and> distinct (GetPermissions example_policy) \<and>
   distinct (GetResources example_policy) \<and>
   marshal_conditions std_collaborators example_policy = Inr owner_blob \<and>
   Unmarshal std_collaborators owner_blob = Inr (Some [''owner'']) \<and>
   Create no_faults std_collaborators empty_db example_policy = (Return None, example_db) \<and>
   Get no_faults std_collaborators example_db ''p1'' =
     Inr \<lparr>ID = ''p1'', Description = ''readers'', Effect = ''allow'', Conditions = Some [''owner''],
          Subjects = [''users:<.+>''], Permissions = [''view''], Resources = [''articles:1'']\<rparr>"
proof -
  have 1: "\<forall>c. no_faults c = None" by (simp add: no_faults_def)
  have 3: "wf_db empty_db" by (simp add: wf_db_def wf_links_def empty_db_def)
  have 4: "GetID example_policy \<notin> set (map id_col (ladon_policy empty_db))"
    by (simp add: empty_db_def)
  have 5: "GetEffect example_policy = ''allow'' \<or> GetEffect example_policy = ''deny''"
    and eff: "GetEffect example_policy = ''allow''"
    by (simp_all add: example_policy_def)
  have 6: "\<forall>tpl \<in> set (GetSubjects example_policy @ GetPermissions example_policy @
                         GetResources example_policy).
           \<exists>reg. CompileRegex std_collaborators tpl (GetStartDelimiter example_policy)
                   (GetEndDelimiter example_policy) = Inr reg"
    by (simp add: example_policy_def std_collaborators_def compile_users compile_view compile_articles)
  have 7: "distinct (GetSubjects example_policy)" "distinct (GetPermissions example_policy)"
    "distinct (GetResources example_policy)"
    by (simp_all add: example_policy_def)
  have 10: "marshal_conditions std_collaborators example_policy = Inr owner_blob"
    by (simp add: marshal_conditions_def std_collaborators_def example_policy_def marshal_owner)
  have 11: "Unmarshal std_collaborators owner_blob = Inr (Some [''owner''])"
    by (simp add: std_collaborators_def decode_owner)
  have 12: "elems (Some [''owner'']) = elems (GetConditions example_policy)"
    by (simp add: example_policy_def)
  from Create_Get_round_trip [OF 1 1 3 4 5 6 7 10 11 12]
  obtain d' q where r: "Create no_faults std_collaborators empty_db example_policy = (Return None, d')"
    "Get no_faults std_collaborators d' (GetID example_policy) = Inr q"
    by blast
  from r(1) have d': "d' = example_db" by (simp add: Create_example)
  have g: "Get no_faults std_collaborators example_db ''p1'' =
     Inr \<lparr>ID = ''p1'', Description = ''readers'', Effect = ''allow'', Conditions = Some [''owner''],
          Subjects = [''users:<.+>''], Permissions = [''view''], Resources = [''articles:1'']\<rparr>"
    by (simp add: no_faults_def example_db_rows std_collaborators_def decode_owner
        Get_def db_QueryRow_def getLinked_def db_Query_def)
  from 1 3 4 eff 7 10 11 r(1) d' g show ?thesis by simp
qed

subsection \<open>The schema's constraints are kept\<close>

text \<open>
  The empty database satisfies the constraints, and \<open>Create\<close> and \<open>Delete\<close> keep them: the
  properties above that assume them hold in every state that the store reaches.
\<close>

lemma wf_db_empty: "wf_db empty_db"
  by (simp add: wf_db_def wf_links_def empty_db_def)

lemma wf_links_InsertPolicy:
  "wf_links d t \<Longrightarrow> wf_links (d\<lparr>ladon_policy := ladon_policy d @ [r]\<rparr>) t"
  by (auto simp: wf_links_def)

lemma wf_links_add_other: "t' \<noteq> t \<Longrightarrow> wf_links (add_links d t rs) t' = wf_links d t'"
  by (simp add: wf_links_def)

lemma wf_links_add_one:
  "wf_links d t \<Longrightarrow> policy r \<in> set (map id_col (ladon_policy d)) \<Longrightarrow>
   (template r, policy r) \<notin> set (map (\<lambda>x. (template x, policy x)) (links d t)) \<Longrightarrow>
   wf_links (add_links d t [r]) t"
  by (auto simp: wf_links_def)

lemma wf_db_InsertPolicy:
  assumes "wf_db d" and "id_col r \<notin> set (map id_col (ladon_policy d))"
    and "effect_col r = ''allow'' \<or> effect_col r = ''deny''"
  shows "wf_db (d\<lparr>ladon_policy := ladon_policy d @ [r]\<rparr>)"
proof -
  have "wf_links d t \<Longrightarrow> wf_links (d\<lparr>ladon_policy := ladon_policy d @ [r]\<rparr>) t" for t
    by (rule wf_links_InsertPolicy)
  with assms show ?thesis by (simp add: wf_db_def)
qed

lemma wf_db_add_link:
  assumes "wf_db d" and "policy r \<in> set (map id_col (ladon_policy d))"
    and "(template r, policy r) \<notin> set (map (\<lambda>x. (template x, policy x)) (links d t))"
  shows "wf_db (add_links d t [r])"
proof -
  have same: "wf_links (add_links d t [r]) t' = wf_links d t'" if "t' \<noteq> t" for t'
    using that by (rule wf_links_add_other)
  have new: "wf_links (add_links d t [r]) t" if "wf_links d t"
    using that assms(2,3) by (rule wf_links_add_one)
  have "wf_links d t' \<Longrightarrow> wf_links (add_links d t [r]) t'" for t'
    using same new by (cases "t' = t") simp_all
  with assms(1) show ?thesis by (simp add: wf_db_def)
qed

lemma wf_db_delete:
  assumes "wf_db d"
  shows "wf_db \<lparr>ladon_policy = filter (\<lambda>r. id_col r \<noteq> i) (ladon_policy d),
          links = (\<lambda>t. filter (\<lambda>r. policy r \<noteq> i) (links d t))\<rparr>"
proof -
  let ?d' = "\<lparr>ladon_policy = filter (\<lambda>r. id_col r \<noteq> i) (ladon_policy d),
          links = (\<lambda>t. filter (\<lambda>r. policy r \<noteq> i) (links d t))\<rparr>"
  have l: "wf_links ?d' t" if "wf_links d t" for t
  proof -
    from that have "distinct (map (\<lambda>r. (template r, policy r)) (links d t))"
      and sub: "set (map policy (links d t)) \<subseteq> set (map id_col (ladon_policy d))"
      by (simp_all add: wf_links_def)
    then have "distinct (map (\<lambda>r. (template r, policy r)) (filter (\<lambda>r. policy r \<noteq> i) (links d t)))"
      by (simp add: distinct_map_filter)
    moreover from sub have "set (map policy (filter (\<lambda>r. policy r \<noteq> i) (links d t)))
        \<subseteq> set (map id_col (filter (\<lambda>r. id_col r \<noteq> i) (ladon_policy d)))"
      by (auto simp: image_iff subset_iff)
    ultimately show ?thesis by (simp add: wf_links_def)
  qed
  from assms have "distinct (map id_col (filter (\<lambda>r. id_col r \<noteq> i) (ladon_policy d)))"
    by (simp add: wf_db_def distinct_map_filter)
  moreover from assms have "list_all (\<lambda>r. effect_col r = ''allow'' \<or> effect_col r = ''deny'')
      (filter (\<lambda>r. id_col r \<noteq> i) (ladon_policy d))"
    by (simp add: wf_db_def list_all_iff)
  ultimately show ?thesis using assms l by (simp add: wf_db_def)
qed

lemma exec_stmt_wf:
  assumes "wf_db d" and "exec_stmt d s = Inr d'"
  shows "wf_db d'"
proof (cases s)
  case (InsertPolicy r)
  with assms(2) have "d' = d\<lparr>ladon_policy := ladon_policy d @ [r]\<rparr>"
    and "id_col r \<notin> set (map id_col (ladon_policy d))"
    and "effect_col r = ''allow'' \<or> effect_col r = ''deny''"
    using exec_InsertPolicy_Inr by blast+
  with assms(1) show ?thesis by (simp add: wf_db_InsertPolicy)
next
  case (InsertLink t r)
  with assms(2) have "d' = add_links d t [r]"
    and "policy r \<in> set (map id_col (ladon_policy d))"
    and "(template r, policy r) \<notin> set (map (\<lambda>x. (template x, policy x)) (links d t))"
    by (auto simp: add_links_def split: if_splits)
  with assms(1) show ?thesis by (simp add: wf_db_add_link)
next
  case (DeletePolicy i)
  with assms(2) have "d' = \<lparr>ladon_policy = filter (\<lambda>r. id_col r \<noteq> i) (ladon_policy d),
          links = (\<lambda>t. filter (\<lambda>r. policy r \<noteq> i) (links d t))\<rparr>" by simp
  with assms(1) show ?thesis by (simp add: wf_db_delete)
qed

lemma createLink_wf:
  "wf_db tx \<Longrightarrow> createLink env col tx t p ts = (r, tx') \<Longrightarrow> wf_db tx'"
proof (induction ts arbitrary: tx)
  case Nil
  then show ?case by simp
next
  case (Cons tpl ts)
  show ?case
  proof (cases "CompileRegex col tpl (GetStartDelimiter p) (GetEndDelimiter p)")
    case (Inl err)
    with Cons.prems show ?thesis by simp
  next
    case (Inr reg)
    show ?thesis
    proof (cases "tx_Exec env tx (InsertLink t \<lparr>compiled = reg, template = tpl, policy = GetID p\<rparr>)")
      case (Inl err)
      with Cons.prems Inr show ?thesis by (auto split: option.splits)
    next
      case tx1: (Inr tx1)
      from tx_Exec_Inr [OF tx1] Cons.prems(1) have "wf_db tx1" using exec_stmt_wf by blast
      moreover from Cons.prems(2) Inr tx1 have "createLink env col tx1 t p ts = (r, tx')" by simp
      ultimately show ?thesis by (rule Cons.IH)
    qed
  qed
qed

lemma Create_wf:
  assumes "wf_db d"
  shows "wf_db (snd (Create env col d p))"
proof (cases "fst (Create env col d p) = Return None")
  case False
  with assms show ?thesis by (simp add: Create_unchanged)
next
  case True
  then have c: "Create env col d p = (Return None, snd (Create env col d p))"
    by (simp add: prod_eq_iff)
  from c obtain blob where blob: "marshal_conditions col p = Inr blob"
    by (cases "marshal_conditions col p") (auto simp: Create_def)
  from c blob have tx: "db_Begin env d = Inr d"
    by (cases "env Begin") (auto simp: Create_def db_Begin_def)
  from c blob tx obtain tx1 where
    tx1: "tx_Exec env d (InsertPolicy (policy_entry p blob)) = Inr tx1"
    by (cases "tx_Exec env d (InsertPolicy (policy_entry p blob))")
       (auto simp: Create_def policy_entry_def)
  note start = blob tx tx1 [unfolded policy_entry_def]
  from c start obtain tx2 where
    s: "createLink env col tx1 ladon_policy_subject p (GetSubjects p) = (Return None, tx2)"
    by (cases "createLink env col tx1 ladon_policy_subject p (GetSubjects p)")
       (auto simp: Create_def split: go.splits option.splits)
  from c start s obtain tx3 where
    pm: "createLink env col tx2 ladon_policy_permission p (GetPermissions p) = (Return None, tx3)"
    by (cases "createLink env col tx2 ladon_policy_permission p (GetPermissions p)")
       (auto simp: Create_def split: go.splits option.splits)
  from c start s pm obtain tx4 where
    rs: "createLink env col tx3 ladon_policy_resource p (GetResources p) = (Return None, tx4)"
    by (cases "createLink env col tx3 ladon_policy_resource p (GetResources p)")
       (auto simp: Create_def split: go.splits option.splits)
  from c start s pm rs have d': "snd (Create env col d p) = tx4"
    by (auto simp: Create_def tx_Commit_def split: option.splits)
  from tx_Exec_Inr [OF tx1] assms have "wf_db tx1" using exec_stmt_wf by blast
  then have "wf_db tx2" using s by (rule createLink_wf)
  then have "wf_db tx3" using pm by (rule createLink_wf)
  then have "wf_db tx4" using rs by (rule createLink_wf)
  with d' show ?thesis by simp
qed

lemma Delete_wf:
  assumes "wf_db d"
  shows "wf_db (snd (Delete env d i))"
proof (cases "db_Exec env d (DeletePolicy i)")
  case (Inl err)
  with assms show ?thesis by (simp add: Delete_def)
next
  case (Inr d')
  then have "exec_stmt d (DeletePolicy i) = Inr d'"
    by (auto simp: db_Exec_def split: option.splits)
  from exec_stmt_wf [OF assms this] Inr show ?thesis by (simp add: Delete_def)
qed

subsection \<open>The link entries hold compiled templates\<close>

text \<open>
  Every entry that \<open>Create\<close> writes holds, beside its template, the pattern that the
  compiler returned for it, and \<open>Delete\<close> only removes entries: in every state that the
  store reaches from the empty database, the entries are as the property of the subject
  match assumes them.
\<close>

lemma Create_keeps_compiled:
  assumes "\<forall>row \<in> set (links d t).
             \<exists>st en. compile_template (template row) st en = Inr (compiled row)"
  shows "\<forall>row \<in> set (links (snd (Create env std_collaborators d p)) t).
             \<exists>st en. compile_template (template row) st en = Inr (compiled row)"
proof (cases "fst (Create env std_collaborators d p) = Return None")
  case False
  from Create_unchanged [OF this] assms show ?thesis by simp
next
  case True
  then have "Create env std_collaborators d p =
      (Return None, snd (Create env std_collaborators d p))"
    by (simp add: prod_eq_iff)
  from Create_success [OF this] obtain blob
    where ok: "\<forall>t. \<forall>tpl \<in> set (templates_of p t).
        (\<exists>reg. CompileRegex std_collaborators tpl (GetStartDelimiter p) (GetEndDelimiter p) = Inr reg) \<and>
        env (TxExec (InsertLink t (link_entry std_collaborators p tpl))) = None"
      and d': "snd (Create env std_collaborators d p) = created std_collaborators p blob d"
    by blast
  show ?thesis
  proof
    fix row
    assume "row \<in> set (links (snd (Create env std_collaborators d p)) t)"
    with d' consider "row \<in> set (links d t)"
      | tpl where "tpl \<in> set (templates_of p t)" and "row = link_entry std_collaborators p tpl"
      by (auto simp: links_created)
    then show "\<exists>st en. compile_template (template row) st en = Inr (compiled row)"
    proof cases
      case 1
      with assms show ?thesis by blast
    next
      case 2
      with ok obtain reg where
        "CompileRegex std_collaborators tpl (GetStartDelimiter p) (GetEndDelimiter p) = Inr reg"
        by blast
      with 2(2) have "compile_template (template row) (GetStartDelimiter p) (GetEndDelimiter p) =
          Inr (compiled row)"
        by (simp add: link_entry_def std_collaborators_def)
      then show ?thesis by blast
    qed
  qed
qed

lemma Delete_keeps_compiled:
  assumes "\<forall>row \<in> set (links d t).
             \<exists>st en. compile_template (template row) st en = Inr (compiled row)"
  shows "\<forall>row \<in> set (links (snd (Delete env d i)) t).
             \<exists>st en. compile_template (template row) st en = Inr (compiled row)"
proof (cases "db_Exec env d (DeletePolicy i)")
  case (Inl err)
  with assms show ?thesis by (simp add: Delete_def)
next
  case (Inr d')
  then have "links d' t = filter (\<lambda>r. policy r \<noteq> i) (links d t)"
    by (auto simp: db_Exec_def split: option.splits)
  with Inr assms show ?thesis by (simp add: Delete_def)
qed

end
